theory Spec2Isabelle
  imports Complex_Main "HOL-Library.Log_Nat" "HOL-Library.Word"
begin

section \<open>Go machine arithmetic\<close>

text \<open>
  Go's \<open>int\<close> and \<open>time.Duration\<close> are 64-bit two's complement integers (on the 64-bit
  platforms the services are built for). They are modelled as \<open>int\<close> with the wrap-around
  of \<open>+\<close>, \<open>-\<close> and \<open>*\<close> written out.
\<close>

definition wrap64 :: "int \<Rightarrow> int" where
  "wrap64 x = (x + 2 ^ 63) mod 2 ^ 64 - 2 ^ 63"

definition in_int64 :: "int \<Rightarrow> bool" where
  "in_int64 x \<longleftrightarrow> - (2 ^ 63) \<le> x \<and> x < 2 ^ 63"

text \<open>Go's \<open>/\<close> and \<open>%\<close> on integers truncate towards zero.\<close>

definition go_quot :: "int \<Rightarrow> int \<Rightarrow> int" where
  "go_quot a b = sgn a * sgn b * (\<bar>a\<bar> div \<bar>b\<bar>)"

definition go_rem :: "int \<Rightarrow> int \<Rightarrow> int" where
  "go_rem a b = a - b * go_quot a b"

subsection \<open>float64\<close>

text \<open>
  A finite \<open>float64\<close> is a dyadic number \<open>mant * 2 ^ expo\<close>. Every arithmetic operation
  computes the exact result as a fraction of integers and rounds it to 53 significant bits,
  ties to even (the IEEE 754 default, which Go uses). Infinities, NaN and subnormal numbers are
  not represented: the functions below that could reach them say so.
\<close>

datatype float64 = F64 (mant: int) (expo: int)

definition f64_val :: "float64 \<Rightarrow> real" where
  "f64_val x = real_of_int (mant x) * 2 powi (expo x)"

text \<open>\<open>p / q\<close> rounded to the nearest integer, ties to even (\<open>0 < q\<close>).\<close>

definition round_half_even :: "int \<Rightarrow> int \<Rightarrow> int" where
  "round_half_even p q =
     (let d = p div q; r = p mod q
      in if 2 * r < q then d
         else if q < 2 * r then d + 1
         else if even d then d else d + 1)"

text \<open>The fraction \<open>(p / q) / 2 ^ e\<close>, for an exponent \<open>e\<close> of either sign.\<close>

definition frac_shift :: "int \<Rightarrow> int \<Rightarrow> int \<Rightarrow> int \<times> int" where
  "frac_shift p q e = (if 0 \<le> e then (p, q * 2 ^ nat e) else (p * 2 ^ nat (- e), q))"

text \<open>
  The exponent \<open>e\<close> of the unit in the last place of \<open>p / q\<close> (\<open>0 < p\<close>, \<open>0 < q\<close>):
  \<open>2 ^ 52 \<le> (p / q) / 2 ^ e < 2 ^ 53\<close>.
\<close>

definition f64_exponent :: "int \<Rightarrow> int \<Rightarrow> int" where
  "f64_exponent p q =
     (let e0 = bitlen p - bitlen q - 53
      in case frac_shift p q e0 of (P, Q) \<Rightarrow> if 2 ^ 53 * Q \<le> P then e0 + 1 else e0)"

definition f64_round :: "int \<Rightarrow> int \<Rightarrow> float64" where
  "f64_round p q =
     (if p = 0 then F64 0 0
      else let e = f64_exponent \<bar>p\<bar> q
           in case frac_shift \<bar>p\<bar> q e of (P, Q) \<Rightarrow> F64 (sgn p * round_half_even P Q) e)"

text \<open>The dyadic number \<open>m * 2 ^ e\<close>, rounded.\<close>

definition f64_round_dyadic :: "int \<Rightarrow> int \<Rightarrow> float64" where
  "f64_round_dyadic m e = (case frac_shift m 1 (- e) of (P, Q) \<Rightarrow> f64_round P Q)"

text \<open>\<open>float64(i)\<close> for an integer \<open>i\<close>.\<close>

definition f64_of_int :: "int \<Rightarrow> float64" where
  "f64_of_int i = f64_round i 1"

definition f64_mul :: "float64 \<Rightarrow> float64 \<Rightarrow> float64" where
  "f64_mul x y = f64_round_dyadic (mant x * mant y) (expo x + expo y)"

definition f64_add :: "float64 \<Rightarrow> float64 \<Rightarrow> float64" where
  "f64_add x y =
     (let e = min (expo x) (expo y)
      in f64_round_dyadic (mant x * 2 ^ nat (expo x - e) + mant y * 2 ^ nat (expo y - e)) e)"

definition f64_sub :: "float64 \<Rightarrow> float64 \<Rightarrow> float64" where
  "f64_sub x y = f64_add x (F64 (- mant y) (expo y))"

text \<open>Division; every divisor in the program is a non-zero constant.\<close>

definition f64_div :: "float64 \<Rightarrow> float64 \<Rightarrow> float64" where
  "f64_div x y =
     (case frac_shift (mant x * sgn (mant y)) \<bar>mant y\<bar> (expo y - expo x) of
        (P, Q) \<Rightarrow> f64_round P Q)"

text \<open>
  The conversions \<open>int(f)\<close> and \<open>time.Duration(f)\<close> discard the fraction (truncation towards
  zero). When the truncated value does not fit the integer type, the Go specification leaves
  the result implementation-dependent: that outcome is \<open>None\<close>.
\<close>

definition f64_trunc :: "float64 \<Rightarrow> int" where
  "f64_trunc x =
     (if 0 \<le> expo x then mant x * 2 ^ nat (expo x)
      else sgn (mant x) * (\<bar>mant x\<bar> div 2 ^ nat (- expo x)))"

definition int64_of_f64 :: "float64 \<Rightarrow> int option" where
  "int64_of_f64 x = (let t = f64_trunc x in if in_int64 t then Some t else None)"

subsection \<open>Package time\<close>

text \<open>
  An instant is a count of nanoseconds on the monotonic clock; a \<open>Duration\<close> is a count of
  nanoseconds. \<open>Time.Sub\<close> saturates at the largest and smallest \<open>Duration\<close>.
\<close>

type_synonym Time = int
type_synonym Duration = int

definition Second :: Duration where
  "Second = 1000000000"

definition Millisecond :: Duration where
  "Millisecond = 1000000"

definition Time_Sub :: "Time \<Rightarrow> Time \<Rightarrow> Duration" where
  "Time_Sub t u =
     (let d = t - u
      in if d < - (2 ^ 63) then - (2 ^ 63) else if 2 ^ 63 - 1 < d then 2 ^ 63 - 1 else d)"

text \<open>
  \<open>Duration.Seconds\<close>:
  \<^verbatim>\<open>sec := d / Second; nsec := d % Second; return float64(sec) + float64(nsec)/1e9\<close>
\<close>

definition Duration_Seconds :: "Duration \<Rightarrow> float64" where
  "Duration_Seconds d =
     (let sec = go_quot d Second; nsec = go_rem d Second
      in f64_add (f64_of_int sec) (f64_div (f64_of_int nsec) (F64 1000000000 0)))"

section \<open>Admission limiter (sink/ratelimit/ratelimit.go)\<close>

record RateLimiter =
  rate :: int
  bucket :: int
  lastUpdate :: Time

text \<open>\<open>NewRateLimiter\<close>; \<open>now\<close> is the reading of \<open>time.Now()\<close>.\<close>

definition NewRateLimiter :: "int \<Rightarrow> Time \<Rightarrow> RateLimiter" where
  "NewRateLimiter r now = \<lparr>rate = r, bucket = r, lastUpdate = now\<rparr>"

text \<open>
  The refill of a call at \<open>now\<close>:
  \<^verbatim>\<open>sinceLast := now.Sub(rl.lastUpdate)\<close>, the float64 product
  \<^verbatim>\<open>sinceLast.Seconds() * float64(rl.rate)\<close> and its conversion
  \<^verbatim>\<open>tokensToAdd := int(...)\<close>.
\<close>

definition sinceLast :: "RateLimiter \<Rightarrow> Time \<Rightarrow> Duration" where
  "sinceLast rl now = Time_Sub now (lastUpdate rl)"

definition refillProduct :: "RateLimiter \<Rightarrow> Time \<Rightarrow> float64" where
  "refillProduct rl now = f64_mul (Duration_Seconds (sinceLast rl now)) (f64_of_int (rate rl))"

definition tokensToAdd :: "RateLimiter \<Rightarrow> Time \<Rightarrow> int option" where
  "tokensToAdd rl now = int64_of_f64 (refillProduct rl now)"

text \<open>
  \<open>Allow\<close> under the mutex: the call returns the verdict and the limiter as it leaves it.
  \<open>now\<close> is the reading of \<open>time.Now()\<close> inside the call.
\<close>

definition Allow :: "RateLimiter \<Rightarrow> Time \<Rightarrow> int \<Rightarrow> (bool \<times> RateLimiter) option" where
  "Allow rl now bytes =
     (case tokensToAdd rl now of
        None \<Rightarrow> None
      | Some t \<Rightarrow>
          let b1 = wrap64 (bucket rl + t);
              b2 = (if b1 > rate rl then rate rl else b1);
              rl' = rl\<lparr>bucket := b2, lastUpdate := now\<rparr>
          in if b2 \<ge> bytes then Some (True, rl'\<lparr>bucket := wrap64 (b2 - bytes)\<rparr>)
             else Some (False, rl'))"

text \<open>
  A sequence of \<open>Allow\<close> calls on one limiter. Each call is given by the time elapsed since
  the previous call (since the construction, for the first) and its size. The result lists,
  for every call, its verdict and the limiter's state after it. The observation points are
  the state the sequence starts from and the state after every call.
\<close>

fun Allow_calls ::
  "RateLimiter \<Rightarrow> (Duration \<times> int) list \<Rightarrow> (bool \<times> RateLimiter) list option" where
  "Allow_calls rl [] = Some []"
| "Allow_calls rl ((dt, n) # cs) =
     (case Allow rl (lastUpdate rl + dt) n of
        None \<Rightarrow> None
      | Some (ok, rl') \<Rightarrow> map_option (Cons (ok, rl')) (Allow_calls rl' cs))"

section \<open>gRPC status codes (google.golang.org/grpc/codes)\<close>

text \<open>
  The codes of package \<open>codes\<close>; \<open>OtherCode\<close> stands for a numeric code outside the named
  ones (a \<open>codes.Code\<close> is a \<open>uint32\<close>).
\<close>

datatype Code =
    OK | Canceled | Unknown | InvalidArgument | DeadlineExceeded | NotFound | AlreadyExists
  | PermissionDenied | ResourceExhausted | FailedPrecondition | Aborted | OutOfRange
  | Unimplemented | Internal | Unavailable | DataLoss | Unauthenticated | OtherCode nat

section \<open>Delivery agent (sensor_node/main.go)\<close>

definition maxRetries :: int where
  "maxRetries = 5"

definition baseDelay :: Duration where
  "baseDelay = 100 * Millisecond"

definition maxDelay :: Duration where
  "maxDelay = 10 * Second"

text \<open>
  An error returned by the transport: \<open>status.FromError\<close> either finds a gRPC status in it
  (\<open>StatusError\<close>, with its code) or does not (\<open>PlainError\<close>). A call's outcome is
  \<open>None\<close> for \<open>err == nil\<close>.
\<close>

datatype rpc_error = StatusError Code | PlainError

fun isRetryableError :: "rpc_error option \<Rightarrow> bool" where
  "isRetryableError None = False"
| "isRetryableError (Some PlainError) = True"
| "isRetryableError (Some (StatusError c)) =
     (case c of
        Unavailable \<Rightarrow> True | DeadlineExceeded \<Rightarrow> True | ResourceExhausted \<Rightarrow> True
      | Aborted \<Rightarrow> True
      | InvalidArgument \<Rightarrow> False | NotFound \<Rightarrow> False | PermissionDenied \<Rightarrow> False
      | Unauthenticated \<Rightarrow> False
      | _ \<Rightarrow> True)"

text \<open>
  \<open>math.Pow(2, float64(attempt))\<close> is the exact power of two while it is a normal float64.
  Beyond that it is an infinity, a subnormal number or zero, which the model does not
  represent: \<open>None\<close>.
\<close>

definition math_Pow2 :: "int \<Rightarrow> float64 option" where
  "math_Pow2 n = (if - 1022 \<le> n \<and> n \<le> 1023 then Some (F64 1 n) else None)"

text \<open>
  \<open>calculateDelay\<close>, lines 252 to 255: the delay before it is clamped. \<open>r\<close> is the value
  \<open>rand.Float64()\<close> returns.
  \<^verbatim>\<open>delay := time.Duration(float64(baseDelay) * math.Pow(2, float64(attempt)))\<close>
  \<^verbatim>\<open>jitter := time.Duration(rand.Float64()*0.5-0.25) * delay\<close>
  \<^verbatim>\<open>delay += jitter\<close>
\<close>

definition jitterFactor :: "float64 \<Rightarrow> int option" where
  "jitterFactor r = int64_of_f64 (f64_sub (f64_mul r (F64 1 (- 1))) (F64 1 (- 2)))"

definition unclampedDelay :: "int \<Rightarrow> Duration \<Rightarrow> float64 \<Rightarrow> Duration option" where
  "unclampedDelay attempt base r =
     (case math_Pow2 attempt of
        None \<Rightarrow> None
      | Some p \<Rightarrow>
          (case int64_of_f64 (f64_mul (f64_of_int base) p) of
             None \<Rightarrow> None
           | Some delay \<Rightarrow>
               (case jitterFactor r of
                  None \<Rightarrow> None
                | Some jf \<Rightarrow>
                    let jitter = wrap64 (jf * delay)
                    in Some (wrap64 (delay + jitter)))))"

definition calculateDelay :: "int \<Rightarrow> Duration \<Rightarrow> Duration \<Rightarrow> float64 \<Rightarrow> Duration option" where
  "calculateDelay attempt base mx r =
     (case unclampedDelay attempt base r of
        None \<Rightarrow> None
      | Some delay \<Rightarrow> Some (if delay > mx then mx else delay))"

text \<open>
  \<open>sendWithRetry\<close>. The transport is an oracle \<open>client\<close>: the error of the call made at
  each attempt. \<open>rnd\<close> gives the value drawn from the random source at each attempt. The
  calls to the transport and to \<open>time.Sleep\<close> are recorded in a trace.
\<close>

datatype client_event = Send int | Sleep Duration | LogFailure string

datatype send_error = NonRetryable rpc_error | MaxRetriesExceeded int

function sendWithRetry_loop ::
  "(int \<Rightarrow> rpc_error option) \<Rightarrow> (int \<Rightarrow> float64) \<Rightarrow> int \<Rightarrow> client_event list
     \<Rightarrow> (send_error option \<times> client_event list) option" where
  "sendWithRetry_loop client rnd attempt tr =
     (if attempt < maxRetries then
        (let tr1 = tr @ [Send attempt]
         in case client attempt of
              None \<Rightarrow> Some (None, tr1)
            | Some err \<Rightarrow>
                if \<not> isRetryableError (Some err) then Some (Some (NonRetryable err), tr1)
                else if attempt < maxRetries - 1 then
                  (case calculateDelay attempt baseDelay maxDelay (rnd attempt) of
                     None \<Rightarrow> None
                   | Some delay \<Rightarrow> sendWithRetry_loop client rnd (attempt + 1) (tr1 @ [Sleep delay]))
                else sendWithRetry_loop client rnd (attempt + 1) tr1)
      else Some (Some (MaxRetriesExceeded maxRetries), tr))"
  by pat_completeness auto
termination
  by (relation "measure (\<lambda>(client, rnd, attempt, tr). nat (maxRetries - attempt))") auto

declare sendWithRetry_loop.simps [simp del]

definition sendWithRetry ::
  "(int \<Rightarrow> rpc_error option) \<Rightarrow> (int \<Rightarrow> float64)
     \<Rightarrow> (send_error option \<times> client_event list) option" where
  "sendWithRetry client rnd = sendWithRetry_loop client rnd 0 []"

text \<open>
  \<open>generateAndSendData\<close>: an error of \<open>sendWithRetry\<close> is logged and the function returns;
  it has no result.
\<close>

definition generateAndSendData ::
  "(int \<Rightarrow> rpc_error option) \<Rightarrow> (int \<Rightarrow> float64) \<Rightarrow> client_event list option" where
  "generateAndSendData client rnd =
     (case sendWithRetry client rnd of
        None \<Rightarrow> None
      | Some (None, tr) \<Rightarrow> Some tr
      | Some (Some e, tr) \<Rightarrow> Some (tr @ [LogFailure ''Failed to send data after retries'']))"

section \<open>Payload encryptor (sink/encryptor/encryptor.go)\<close>

type_synonym byte = "8 word"
type_synonym bytes = "byte list"

text \<open>
  The \<open>cipher.AEAD\<close> the encryptor holds (AES-GCM of Go's standard library) is outside the
  repository. It is a parameter: its nonce size, \<open>Seal\<close> (nonce and plaintext to ciphertext
  with tag, no additional data) and \<open>Open\<close> (\<open>None\<close> when authentication fails).
\<close>

record AEAD =
  NonceSize :: nat
  Seal :: "bytes \<Rightarrow> bytes \<Rightarrow> bytes"
  Open :: "bytes \<Rightarrow> bytes \<Rightarrow> bytes option"

text \<open>
  \<open>Encrypt\<close>: \<open>rnd\<close> is the outcome of \<open>io.ReadFull(rand.Reader, nonce)\<close>, an error or the
  nonce. \<open>e.gcm.Seal(nonce, nonce, plaintext, nil)\<close> appends the ciphertext to the nonce.
\<close>

definition Encrypt :: "AEAD \<Rightarrow> string + bytes \<Rightarrow> bytes \<Rightarrow> string + bytes" where
  "Encrypt gcm rnd plaintext =
     (case rnd of
        Inl err \<Rightarrow> Inl ''failed to generate nonce''
      | Inr nonce \<Rightarrow> Inr (nonce @ Seal gcm nonce plaintext))"

definition Decrypt :: "AEAD \<Rightarrow> bytes \<Rightarrow> string + bytes" where
  "Decrypt gcm ciphertext =
     (if length ciphertext < NonceSize gcm then Inl ''ciphertext too short''
      else case Open gcm (take (NonceSize gcm) ciphertext) (drop (NonceSize gcm) ciphertext) of
             None \<Rightarrow> Inl ''failed to decrypt''
           | Some plaintext \<Rightarrow> Inr plaintext)"

section \<open>Sink server (package server)\<close>

record Config =
  BindAddr :: string
  LogFilePath :: string
  BufferSize :: int
  FlushInterval :: Duration
  RateLimit :: int
  UseTLS :: bool
  CertFile :: string
  KeyFile :: string
  CAFile :: string
  EnableEncryption :: bool
  EncryptionKey :: string

text \<open>The calls made on the \<open>bufio.Writer\<close> of the log file, in order.\<close>

datatype io_event = FileWrite bytes | FileFlush

record SinkServer =
  config :: Config
  buffer :: bytes
  fileWriter :: "io_event list"
  rateLimiter :: RateLimiter
  encryptor :: "AEAD option"

text \<open>
  What the transport handshake left in the request context: \<open>peer.FromContext\<close> finds a
  peer or not, and the peer's \<open>AuthInfo\<close> is a \<open>credentials.TLSInfo\<close> with the verified peer
  certificates, or something else.
\<close>

record Certificate =
  Subject :: string
  Issuer :: string

datatype AuthInfo = TLSInfo "Certificate list" | OtherAuthInfo

text \<open>
  Everything a request meets outside the handler: the request context, the outcomes of the
  library calls (\<open>proto.Marshal\<close>, \<open>time.Now\<close> in the limiter, \<open>json.Marshal\<close>, the random
  nonce, \<open>base64.StdEncoding.EncodeToString\<close>) and the errors of \<open>fileWriter.Write\<close> and
  \<open>fileWriter.Flush\<close>.
\<close>

record request_env =
  peer :: "AuthInfo option"
  protoMarshal :: "string + bytes"
  timeNow :: Time
  jsonMarshal :: "string + bytes"
  randNonce :: "string + bytes"
  base64Encode :: "bytes \<Rightarrow> bytes"
  writeErr :: "string option"
  flushErr :: "string option"

definition validateClientCertificateIfMTLS :: "SinkServer \<Rightarrow> request_env \<Rightarrow> string option" where
  "validateClientCertificateIfMTLS s env =
     (if \<not> UseTLS (config s) \<or> CAFile (config s) = [] then None
      else case peer env of
             None \<Rightarrow> Some ''get peer from context''
           | Some OtherAuthInfo \<Rightarrow> Some ''get TLS info''
           | Some (TLSInfo certs) \<Rightarrow>
               if length certs = 0 then Some ''no client certificate provided'' else None)"

text \<open>\<open>flushBuffer\<close>, called with the buffer mutex held: the error it returns and the server.\<close>

definition flushBuffer :: "SinkServer \<Rightarrow> request_env \<Rightarrow> string option \<times> SinkServer" where
  "flushBuffer s env =
     (if length (buffer s) = 0 then (None, s)
      else
        let s1 = s\<lparr>fileWriter := fileWriter s @ [FileWrite (buffer s)]\<rparr>
        in case writeErr env of
             Some err \<Rightarrow> (Some err, s1)
           | None \<Rightarrow>
               let s2 = s1\<lparr>fileWriter := fileWriter s1 @ [FileFlush]\<rparr>
               in case flushErr env of
                    Some err \<Rightarrow> (Some err, s2)
                  | None \<Rightarrow> (None, s2\<lparr>buffer := []\<rparr>))"

text \<open>
  The critical section of \<open>SendSensorData\<close> (lines 189 to 201): the append of one log line
  to the buffer, after a flush when the line would not fit. The result is the status code of
  the error, or the message of the response.
\<close>

definition appendLogData :: "SinkServer \<Rightarrow> request_env \<Rightarrow> bytes \<Rightarrow> (Code + string) \<times> SinkServer" where
  "appendLogData s env logData =
     (if int (length (buffer s)) + int (length logData) > BufferSize (config s) then
        (case flushBuffer s env of
           (Some err, s') \<Rightarrow> (Inl Internal, s')
         | (None, s') \<Rightarrow> (Inr ''Received successfully'', s'\<lparr>buffer := buffer s' @ logData\<rparr>))
      else (Inr ''Received successfully'', s\<lparr>buffer := buffer s @ logData\<rparr>))"

text \<open>
  \<open>SendSensorData\<close>. \<open>None\<close> is the one outcome the model does not determine, the
  implementation-dependent conversion inside \<open>Allow\<close>.
\<close>

definition SendSensorData ::
  "SinkServer \<Rightarrow> request_env \<Rightarrow> ((Code + string) \<times> SinkServer) option" where
  "SendSensorData s env =
     (case validateClientCertificateIfMTLS s env of
        Some err \<Rightarrow> Some (Inl Unauthenticated, s)
      | None \<Rightarrow>
          (case protoMarshal env of
             Inl err \<Rightarrow> Some (Inl Internal, s)
           | Inr data \<Rightarrow>
               (case Allow (rateLimiter s) (timeNow env) (int (length data)) of
                  None \<Rightarrow> None
                | Some (ok, rl') \<Rightarrow>
                    let s1 = s\<lparr>rateLimiter := rl'\<rparr>
                    in if \<not> ok then Some (Inl ResourceExhausted, s1)
                       else
                         (case jsonMarshal env of
                            Inl err \<Rightarrow> Some (Inl Internal, s1)
                          | Inr logData \<Rightarrow>
                              (case encryptor s1 of
                                 None \<Rightarrow> Some (appendLogData s1 env (logData @ [10]))
                               | Some gcm \<Rightarrow>
                                   (case Encrypt gcm (randNonce env) logData of
                                      Inl err \<Rightarrow> Some (Inl Internal, s1)
                                    | Inr encryptedData \<Rightarrow>
                                        Some (appendLogData s1 env
                                                (base64Encode env encryptedData @ [10]))))))))"

section \<open>Specification predicates\<close>

text \<open>
  \<open>f64_rounds x y\<close>: the float \<open>y\<close> is a correct rounding of the real number \<open>x\<close>
  as far as the proofs need it: the relative error is at most \<open>2 ^ - 53\<close>, the sign is
  kept, and a number with a 53-bit significand is not changed.
\<close>

definition f64_rounds :: "real \<Rightarrow> float64 \<Rightarrow> bool" where
  "f64_rounds x y \<longleftrightarrow>
     \<bar>f64_val y - x\<bar> \<le> \<bar>x\<bar> / 2 ^ 53 \<and>
     (0 \<le> x \<longrightarrow> 0 \<le> f64_val y) \<and>
     (\<forall>M E. x = real_of_int M * 2 powi E \<and> \<bar>M\<bar> < 2 ^ 53 \<longrightarrow> f64_val y = x)"

text \<open>The invariant of the quota state as the data model states it: \<open>0 \<le> available \<le> capacity\<close>.\<close>

definition quota_inv :: "RateLimiter \<Rightarrow> bool" where
  "quota_inv s \<longleftrightarrow> 0 \<le> bucket s \<and> bucket s \<le> rate s"

section \<open>Example states\<close>

text \<open>
  A server with a buffer of 10 bytes and a limiter of 100 bytes per second, without TLS and
  without encryption, and a request whose library calls and file operations all succeed.
\<close>

definition example_config :: Config where
  "example_config =
     \<lparr>BindAddr = '':9090'', LogFilePath = ''telemetry.log'', BufferSize = 10,
      FlushInterval = 100 * Millisecond, RateLimit = 100, UseTLS = False, CertFile = [],
      KeyFile = [], CAFile = [], EnableEncryption = False, EncryptionKey = []\<rparr>"

definition example_server :: SinkServer where
  "example_server =
     \<lparr>config = example_config, buffer = [], fileWriter = [],
      rateLimiter = NewRateLimiter 100 0, encryptor = None\<rparr>"

definition example_env :: request_env where
  "example_env =
     \<lparr>peer = None, protoMarshal = Inr [8, 1, 16, 2], timeNow = 0,
      jsonMarshal = Inr [123, 34, 118, 34, 125], randNonce = Inl ''no entropy'',
      base64Encode = (\<lambda>b. b), writeErr = None, flushErr = None\<rparr>"

section \<open>Properties of the float64 model\<close>

lemma frac_shift_pos:
  assumes "0 < q" "frac_shift p q e = (P, Q)"
  shows "0 < Q"
  using assms by (auto simp: frac_shift_def split: if_splits)

lemma frac_shift_val:
  assumes "0 < q" "frac_shift p q e = (P, Q)"
  shows "real_of_int P / real_of_int Q = (real_of_int p / real_of_int q) * 2 powi (- e)"
proof (cases "0 \<le> e")
  case True
  then have "P = p" "Q = q * 2 ^ nat e"
    using assms by (auto simp: frac_shift_def)
  moreover have "(2::real) powi (- e) = 1 / 2 ^ nat e"
    using True by (simp add: power_int_minus_divide power_int_nonneg_exp)
  ultimately show ?thesis by simp
next
  case False
  then have "P = p * 2 ^ nat (- e)" "Q = q"
    using assms by (auto simp: frac_shift_def)
  moreover have "(2::real) powi (- e) = 2 ^ nat (- e)"
    using False by (simp add: power_int_nonneg_exp)
  ultimately show ?thesis by simp
qed

lemma bitlen_real_bounds:
  assumes "0 < x"
  shows "2 powi (bitlen x - 1) \<le> real_of_int x" and "real_of_int x < 2 powi (bitlen x)"
proof -
  have b: "2 ^ nat (bitlen x - 1) \<le> x" "x < 2 ^ nat (bitlen x)"
    using bitlen_bounds [OF assms] by auto
  have pos: "1 \<le> bitlen x"
    using assms bitlen_eq_zero_iff [of x] bitlen_nonneg [of x] by linarith
  have "real_of_int (2 ^ nat (bitlen x - 1)) \<le> real_of_int x"
    using b(1) of_int_le_iff by blast
  then show "2 powi (bitlen x - 1) \<le> real_of_int x"
    using pos by (simp add: power_int_nonneg_exp)
  have "real_of_int x < real_of_int (2 ^ nat (bitlen x))"
    using b(2) of_int_less_iff by blast
  then show "real_of_int x < 2 powi (bitlen x)"
    using pos by (simp add: power_int_nonneg_exp)
qed

lemma f64_exponent_lower:
  assumes "0 < p" "0 < q"
  shows "2 powi (f64_exponent p q + 52) \<le> real_of_int p / real_of_int q"
proof -
  define e0 where "e0 = bitlen p - bitlen q - 53"
  obtain P Q where PQ: "frac_shift p q e0 = (P, Q)"
    by (cases "frac_shift p q e0")
  have Qpos: "0 < Q" using frac_shift_pos [OF assms(2) PQ] .
  have val: "real_of_int P / real_of_int Q = (real_of_int p / real_of_int q) * 2 powi (- e0)"
    using frac_shift_val [OF assms(2) PQ] .
  have e: "f64_exponent p q = (if 2 ^ 53 * Q \<le> P then e0 + 1 else e0)"
    by (simp add: f64_exponent_def e0_def [symmetric] PQ)
  have rq: "0 < real_of_int q" using assms by simp
  show ?thesis
  proof (cases "2 ^ 53 * Q \<le> P")
    case True
    then have "real_of_int (2 ^ 53 * Q) \<le> real_of_int P"
      using of_int_le_iff by blast
    then have "2 ^ 53 \<le> real_of_int P / real_of_int Q"
      using Qpos by (simp add: pos_le_divide_eq)
    then have "2 ^ 53 \<le> (real_of_int p / real_of_int q) * 2 powi (- e0)"
      using val by simp
    then have "2 ^ 53 * 2 powi e0 \<le> ((real_of_int p / real_of_int q) * 2 powi (- e0)) * 2 powi e0"
      by (intro mult_right_mono) auto
    also have "\<dots> = real_of_int p / real_of_int q"
      by (simp add: power_int_minus)
    finally have "2 ^ 53 * 2 powi e0 \<le> real_of_int p / real_of_int q" .
    moreover have "(2::real) powi (e0 + 1 + 52) = 2 ^ 53 * 2 powi e0"
      by (simp add: power_int_add)
    ultimately show ?thesis using True e by simp
  next
    case False
    have "2 powi (bitlen p - 1) \<le> real_of_int p"
      using bitlen_real_bounds(1) [OF assms(1)] .
    moreover have "real_of_int q \<le> 2 powi (bitlen q)"
      using bitlen_real_bounds(2) [OF assms(2)] by simp
    ultimately have "2 powi (bitlen p - 1) / 2 powi (bitlen q) \<le> real_of_int p / real_of_int q"
      using rq assms by (intro frac_le) auto
    moreover have "(2::real) powi (e0 + 52) = 2 powi (bitlen p - 1) / 2 powi (bitlen q)"
      by (simp add: e0_def power_int_diff)
    ultimately show ?thesis using False e by simp
  qed
qed

lemma f64_exponent_upper:
  assumes "0 < p" "0 < q"
  shows "real_of_int p / real_of_int q < 2 powi (f64_exponent p q + 53)"
proof -
  define e0 where "e0 = bitlen p - bitlen q - 53"
  obtain P Q where PQ: "frac_shift p q e0 = (P, Q)"
    by (cases "frac_shift p q e0")
  have Qpos: "0 < Q" using frac_shift_pos [OF assms(2) PQ] .
  have val: "real_of_int P / real_of_int Q = (real_of_int p / real_of_int q) * 2 powi (- e0)"
    using frac_shift_val [OF assms(2) PQ] .
  have e: "f64_exponent p q = (if 2 ^ 53 * Q \<le> P then e0 + 1 else e0)"
    by (simp add: f64_exponent_def e0_def [symmetric] PQ)
  have rq: "0 < real_of_int q" using assms by simp
  show ?thesis
  proof (cases "2 ^ 53 * Q \<le> P")
    case True
    have "real_of_int p < 2 powi (bitlen p)"
      using bitlen_real_bounds(2) [OF assms(1)] .
    moreover have "2 powi (bitlen q - 1) \<le> real_of_int q"
      using bitlen_real_bounds(1) [OF assms(2)] .
    ultimately have "real_of_int p / real_of_int q < 2 powi (bitlen p) / 2 powi (bitlen q - 1)"
      using assms by (intro frac_less) auto
    moreover have "e0 + 1 + 53 = bitlen p - (bitlen q - 1)"
      by (simp add: e0_def)
    then have "(2::real) powi (e0 + 1 + 53) = 2 powi (bitlen p) / 2 powi (bitlen q - 1)"
      by (simp only: power_int_diff [of "2::real", simplified])
    ultimately show ?thesis using True e by simp
  next
    case False
    then have "real_of_int P < real_of_int (2 ^ 53 * Q)"
      by (simp only: of_int_less_iff not_le)
    then have "real_of_int P / real_of_int Q < 2 ^ 53"
      using Qpos by (simp add: pos_divide_less_eq)
    then have "(real_of_int p / real_of_int q) * 2 powi (- e0) < 2 ^ 53"
      using val by simp
    then have A: "((real_of_int p / real_of_int q) * 2 powi (- e0)) * 2 powi e0 < 2 ^ 53 * 2 powi e0"
      by (intro mult_strict_right_mono) auto
    have B: "((real_of_int p / real_of_int q) * 2 powi (- e0)) * 2 powi e0
        = real_of_int p / real_of_int q"
      by (simp add: power_int_minus)
    have C: "(2::real) powi (e0 + 53) = 2 ^ 53 * 2 powi e0"
      by (simp add: power_int_add)
    from A have "real_of_int p / real_of_int q < 2 ^ 53 * 2 powi e0"
      by (simp only: B)
    then have "real_of_int p / real_of_int q < 2 powi (e0 + 53)"
      by (simp only: C)
    then show ?thesis using False by (simp only: e if_False)
  qed
qed

lemma round_half_even_error:
  assumes "0 < q"
  shows "\<bar>real_of_int (round_half_even p q) - real_of_int p / real_of_int q\<bar> \<le> 1 / 2"
proof -
  define d where "d = p div q"
  define r where "r = p mod q"
  have p: "p = d * q + r" by (simp add: d_def r_def)
  have r: "0 \<le> r" "r < q" using assms by (simp_all add: r_def)
  have rq: "0 < real_of_int q" using assms by simp
  have frac: "real_of_int p / real_of_int q = real_of_int d + real_of_int r / real_of_int q"
    using rq by (simp add: p field_simps)
  have rhe: "round_half_even p q = (if 2 * r < q then d else if q < 2 * r then d + 1
        else if even d then d else d + 1)"
    by (simp add: round_half_even_def d_def r_def Let_def)
  have r0: "0 \<le> real_of_int r / real_of_int q" using r rq by simp
  have r1: "real_of_int r / real_of_int q < 1" using r rq by simp
  show ?thesis
  proof (cases "2 * r < q")
    case True
    then have "real_of_int (2 * r) < real_of_int q" using of_int_less_iff by blast
    then have "real_of_int r / real_of_int q \<le> 1 / 2" using rq by (simp add: field_simps)
    then show ?thesis using True rhe frac r0 by simp
  next
    case False
    then have "real_of_int q \<le> real_of_int (2 * r)" using of_int_le_iff by (metis not_less)
    then have h: "1 / 2 \<le> real_of_int r / real_of_int q" using rq by (simp add: field_simps)
    show ?thesis
    proof (cases "q < 2 * r")
      case True
      then show ?thesis using False rhe frac h r1 by simp
    next
      case F2: False
      then have "q = 2 * r" using False by simp
      then have hq: "real_of_int r / real_of_int q = 1 / 2" using rq by simp
      have "round_half_even p q = d \<or> round_half_even p q = d + 1"
        using rhe by presburger
      then show ?thesis
        by (elim disjE) (simp_all add: frac hq)
    qed
  qed
qed

lemma round_half_even_exact:
  assumes "0 < q" "p = k * q"
  shows "round_half_even p q = k"
  using assms by (simp add: round_half_even_def)

lemma round_half_even_nonneg:
  assumes "0 < q" "0 \<le> p"
  shows "0 \<le> round_half_even p q"
proof -
  have "0 \<le> p div q" using assms by (simp add: pos_imp_zdiv_nonneg_iff)
  then show ?thesis by (simp add: round_half_even_def Let_def)
qed

lemma f64_round_error:
  assumes "0 < q"
  shows "\<bar>f64_val (f64_round p q) - real_of_int p / real_of_int q\<bar>
           \<le> \<bar>real_of_int p / real_of_int q\<bar> / 2 ^ 53"
proof (cases "p = 0")
  case True
  then show ?thesis by (simp add: f64_round_def f64_val_def)
next
  case False
  define a where "a = \<bar>p\<bar>"
  define e where "e = f64_exponent a q"
  obtain P Q where PQ: "frac_shift a q e = (P, Q)"
    by (cases "frac_shift a q e")
  define m where "m = round_half_even P Q"
  have apos: "0 < a" using False by (simp add: a_def)
  have Qpos: "0 < Q" using frac_shift_pos [OF assms PQ] .
  have val: "real_of_int P / real_of_int Q = (real_of_int a / real_of_int q) * 2 powi (- e)"
    using frac_shift_val [OF assms PQ] .
  have r: "f64_round p q = F64 (sgn p * m) e"
    using False by (simp add: f64_round_def a_def [symmetric] e_def [symmetric] PQ m_def)
  have err: "\<bar>real_of_int m - real_of_int P / real_of_int Q\<bar> \<le> 1 / 2"
    unfolding m_def using round_half_even_error [OF Qpos] .
  have "real_of_int (sgn p * \<bar>p\<bar>) = real_of_int p"
    by (simp only: sgn_mult_abs)
  then have p: "real_of_int p = real_of_int (sgn p) * real_of_int a"
    by (simp add: a_def)
  have aq: "real_of_int a / real_of_int q = (real_of_int P / real_of_int Q) * 2 powi e"
    by (simp add: val power_int_minus)
  have v: "f64_val (f64_round p q) = real_of_int (sgn p) * (real_of_int m * 2 powi e)"
    by (simp add: r f64_val_def)
  have "real_of_int p / real_of_int q = real_of_int (sgn p) * (real_of_int a / real_of_int q)"
    by (simp add: p)
  then have pq: "real_of_int p / real_of_int q
          = real_of_int (sgn p) * ((real_of_int P / real_of_int Q) * 2 powi e)"
    by (simp only: aq)
  have "f64_val (f64_round p q) - real_of_int p / real_of_int q
          = real_of_int (sgn p) * ((real_of_int m - real_of_int P / real_of_int Q) * 2 powi e)"
    by (simp only: v pq right_diff_distrib left_diff_distrib)
  then have "\<bar>f64_val (f64_round p q) - real_of_int p / real_of_int q\<bar>
          = \<bar>real_of_int m - real_of_int P / real_of_int Q\<bar> * 2 powi e"
    using False by (simp add: abs_mult abs_sgn_eq flip: of_int_abs)
  also have "\<dots> \<le> (1 / 2) * 2 powi e"
    using err by (intro mult_right_mono) auto
  also have "\<dots> = 2 powi (e + 52) / 2 ^ 53"
    by (simp add: power_int_add)
  also have "\<dots> \<le> (real_of_int a / real_of_int q) / 2 ^ 53"
    using f64_exponent_lower [OF apos assms] by (simp add: e_def divide_right_mono)
  also have "real_of_int a / real_of_int q = \<bar>real_of_int p / real_of_int q\<bar>"
    using assms by (simp add: a_def)
  finally show ?thesis .
qed

lemma power_int_2_less_cancel:
  assumes "(2::real) powi a < 2 powi b"
  shows "a < b"
proof (rule ccontr)
  assume "\<not> a < b"
  then have "b \<le> a" by simp
  then have "(2::real) powi b \<le> 2 powi a"
    by (intro power_int_increasing) auto
  then show False using assms by simp
qed

lemma f64_round_exact:
  assumes "0 < q" and eq: "real_of_int p / real_of_int q = real_of_int M * 2 powi E"
    and M: "\<bar>M\<bar> < 2 ^ 53"
  shows "f64_val (f64_round p q) = real_of_int p / real_of_int q"
proof (cases "p = 0")
  case True
  then show ?thesis by (simp add: f64_round_def f64_val_def)
next
  case False
  define a where "a = \<bar>p\<bar>"
  define e where "e = f64_exponent a q"
  obtain P Q where PQ: "frac_shift a q e = (P, Q)"
    by (cases "frac_shift a q e")
  have apos: "0 < a" using False by (simp add: a_def)
  have Qpos: "0 < Q" using frac_shift_pos [OF assms(1) PQ] .
  have val: "real_of_int P / real_of_int Q = (real_of_int a / real_of_int q) * 2 powi (- e)"
    using frac_shift_val [OF assms(1) PQ] .
  have r: "f64_round p q = F64 (sgn p * round_half_even P Q) e"
    using False by (simp add: f64_round_def a_def [symmetric] e_def [symmetric] PQ)
  have "real_of_int a / real_of_int q = \<bar>real_of_int p / real_of_int q\<bar>"
    using assms(1) by (simp add: a_def)
  then have aq: "real_of_int a / real_of_int q = real_of_int \<bar>M\<bar> * 2 powi E"
    by (simp add: eq abs_mult)
  have "real_of_int \<bar>M\<bar> < 2 ^ 53"
    using M by (metis of_int_less_iff of_int_numeral of_int_power)
  then have "real_of_int \<bar>M\<bar> * 2 powi E < 2 ^ 53 * 2 powi E"
    by (intro mult_strict_right_mono) auto
  moreover have "2 powi (e + 52) \<le> real_of_int \<bar>M\<bar> * 2 powi E"
    unfolding e_def aq [symmetric] by (rule f64_exponent_lower [OF apos assms(1)])
  ultimately have "2 powi (e + 52) < (2::real) ^ 53 * 2 powi E"
    by (rule order.strict_trans1 [rotated])
  also have "(2::real) ^ 53 * 2 powi E = 2 powi (E + 53)"
    by (simp add: power_int_add)
  finally have "e \<le> E"
    using power_int_2_less_cancel [of "e + 52" "E + 53"] by simp
  define n where "n = nat (E - e)"
  have E: "E = e + int n" using \<open>e \<le> E\<close> by (simp add: n_def)
  have "real_of_int P / real_of_int Q = real_of_int \<bar>M\<bar> * 2 ^ n"
    by (simp add: val aq E power_int_add power_int_minus)
  then have "real_of_int P = real_of_int (\<bar>M\<bar> * 2 ^ n * Q)"
    using Qpos by (simp add: field_simps)
  then have "P = \<bar>M\<bar> * 2 ^ n * Q"
    using of_int_eq_iff by blast
  then have "round_half_even P Q = \<bar>M\<bar> * 2 ^ n"
    using round_half_even_exact [OF Qpos] by simp
  then have "f64_val (f64_round p q) = real_of_int (sgn p) * (real_of_int \<bar>M\<bar> * 2 powi E)"
    by (simp add: r f64_val_def E power_int_add)
  also have "\<dots> = real_of_int (sgn p) * (real_of_int a / real_of_int q)"
    by (simp add: aq)
  also have "\<dots> = real_of_int (sgn p * \<bar>p\<bar>) / real_of_int q"
    by (simp add: a_def)
  also have "\<dots> = real_of_int p / real_of_int q"
    by (simp only: sgn_mult_abs)
  finally show ?thesis .
qed

lemma f64_round_nonneg:
  assumes "0 < q" "0 \<le> p"
  shows "0 \<le> f64_val (f64_round p q)"
proof (cases "p = 0")
  case True
  then show ?thesis by (simp add: f64_round_def f64_val_def)
next
  case False
  obtain P Q where PQ: "frac_shift p q (f64_exponent p q) = (P, Q)"
    by (cases "frac_shift p q (f64_exponent p q)")
  have "0 < Q" using frac_shift_pos [OF assms(1) PQ] .
  moreover have "0 \<le> P" using PQ assms(2) by (auto simp: frac_shift_def split: if_splits)
  ultimately have "0 \<le> round_half_even P Q" by (rule round_half_even_nonneg)
  then show ?thesis using False assms(2) by (simp add: f64_round_def PQ f64_val_def)
qed

text \<open>The significand of a rounded number has at most 53 bits (\<open>2 ^ 53\<close> itself when the
  rounding carries into the next binade).\<close>

lemma f64_round_significand:
  assumes "0 < q"
  shows "\<bar>mant (f64_round p q)\<bar> \<le> 2 ^ 53"
proof (cases "p = 0")
  case True
  then show ?thesis by (simp add: f64_round_def)
next
  case False
  define a where "a = \<bar>p\<bar>"
  define e where "e = f64_exponent a q"
  obtain P Q where PQ: "frac_shift a q e = (P, Q)"
    by (cases "frac_shift a q e")
  define m where "m = round_half_even P Q"
  have apos: "0 < a" using False by (simp add: a_def)
  have Qpos: "0 < Q" using frac_shift_pos [OF assms PQ] .
  have Pnn: "0 \<le> P" using PQ apos by (auto simp: frac_shift_def split: if_splits)
  have val: "real_of_int P / real_of_int Q = (real_of_int a / real_of_int q) * 2 powi (- e)"
    using frac_shift_val [OF assms PQ] .
  have "(real_of_int a / real_of_int q) * 2 powi (- e) < 2 powi (e + 53) * 2 powi (- e)"
    using f64_exponent_upper [OF apos assms] unfolding e_def
    by (intro mult_strict_right_mono) auto
  also have "2 powi (e + 53) * 2 powi (- e) = (2::real) ^ 53"
    by (simp flip: power_int_add)
  finally have lt: "real_of_int P / real_of_int Q < 2 ^ 53"
    using val by simp
  have "\<bar>real_of_int m - real_of_int P / real_of_int Q\<bar> \<le> 1 / 2"
    unfolding m_def using round_half_even_error [OF Qpos] .
  then have "real_of_int m < 2 ^ 53 + 1 / 2"
    using lt by linarith
  then have "real_of_int m < real_of_int (2 ^ 53 + 1)"
    by simp
  then have "m < 2 ^ 53 + 1"
    by (simp only: of_int_less_iff)
  moreover have "0 \<le> m"
    unfolding m_def using round_half_even_nonneg [OF Qpos Pnn] .
  moreover have "f64_round p q = F64 (sgn p * m) e"
    using False by (simp add: f64_round_def a_def [symmetric] e_def [symmetric] PQ m_def)
  ultimately show ?thesis
    using False by (simp add: abs_mult abs_sgn_eq)
qed

lemma f64_round_rounds:
  assumes "0 < q"
  shows "f64_rounds (real_of_int p / real_of_int q) (f64_round p q)"
proof -
  have "0 \<le> f64_val (f64_round p q)" if "0 \<le> real_of_int p / real_of_int q"
  proof -
    from that assms have "0 \<le> p" by (simp add: zero_le_divide_iff)
    with assms show ?thesis by (intro f64_round_nonneg)
  qed
  then show ?thesis
    unfolding f64_rounds_def using f64_round_error [OF assms] f64_round_exact [OF assms]
    by blast
qed

lemma f64_round_dyadic_rounds:
  "f64_rounds (real_of_int m * 2 powi e) (f64_round_dyadic m e)"
proof -
  obtain P Q where PQ: "frac_shift m 1 (- e) = (P, Q)"
    by (cases "frac_shift m 1 (- e)")
  have "0 < Q" using frac_shift_pos [OF _ PQ] by simp
  moreover have "real_of_int P / real_of_int Q = real_of_int m * 2 powi e"
    using frac_shift_val [OF _ PQ] by simp
  ultimately show ?thesis
    using f64_round_rounds [of Q P] by (simp add: f64_round_dyadic_def PQ)
qed

lemma f64_of_int_rounds: "f64_rounds (real_of_int i) (f64_of_int i)"
  using f64_round_rounds [of 1 i] by (simp add: f64_of_int_def)

lemma f64_mul_rounds: "f64_rounds (f64_val x * f64_val y) (f64_mul x y)"
proof -
  have "f64_val x * f64_val y = real_of_int (mant x * mant y) * 2 powi (expo x + expo y)"
    by (simp add: f64_val_def power_int_add)
  then show ?thesis
    using f64_round_dyadic_rounds [of "mant x * mant y" "expo x + expo y"]
    by (simp add: f64_mul_def)
qed

lemma pow_nat_diff_powi:
  assumes "e \<le> a"
  shows "(2::real) ^ nat (a - e) * 2 powi e = 2 powi a"
proof -
  have "(2::real) ^ nat (a - e) = 2 powi (a - e)"
    using assms by (simp add: power_int_nonneg_exp)
  then show ?thesis by (simp flip: power_int_add)
qed

lemma f64_add_rounds: "f64_rounds (f64_val x + f64_val y) (f64_add x y)"
proof -
  define e where "e = min (expo x) (expo y)"
  have "real_of_int (mant x * 2 ^ nat (expo x - e) + mant y * 2 ^ nat (expo y - e)) * 2 powi e
          = real_of_int (mant x) * (2 ^ nat (expo x - e) * 2 powi e)
            + real_of_int (mant y) * (2 ^ nat (expo y - e) * 2 powi e)"
    by (simp add: algebra_simps)
  also have "\<dots> = f64_val x + f64_val y"
    by (simp add: pow_nat_diff_powi e_def f64_val_def)
  finally show ?thesis
    using f64_round_dyadic_rounds
      [of "mant x * 2 ^ nat (expo x - e) + mant y * 2 ^ nat (expo y - e)" e]
    by (simp add: f64_add_def e_def [symmetric])
qed

lemma f64_sub_rounds: "f64_rounds (f64_val x - f64_val y) (f64_sub x y)"
  using f64_add_rounds [of x "F64 (- mant y) (expo y)"]
  by (simp add: f64_sub_def f64_val_def)

lemma f64_div_rounds:
  assumes "mant y \<noteq> 0"
  shows "f64_rounds (f64_val x / f64_val y) (f64_div x y)"
proof -
  obtain P Q where PQ: "frac_shift (mant x * sgn (mant y)) \<bar>mant y\<bar> (expo y - expo x) = (P, Q)"
    by (cases "frac_shift (mant x * sgn (mant y)) \<bar>mant y\<bar> (expo y - expo x)")
  have pos: "0 < \<bar>mant y\<bar>" using assms by simp
  have Q: "0 < Q" using frac_shift_pos [OF pos PQ] .
  have "real_of_int (mant x * sgn (mant y)) / real_of_int \<bar>mant y\<bar>
      = real_of_int (mant x) / real_of_int (mant y)"
    using assms by (cases "0 < mant y") (simp_all add: sgn_if)
  then have "real_of_int P / real_of_int Q
      = (real_of_int (mant x) / real_of_int (mant y)) * 2 powi (- (expo y - expo x))"
    using frac_shift_val [OF pos PQ] by simp
  also have "\<dots> = f64_val x / f64_val y"
    by (simp add: f64_val_def power_int_diff)
  finally show ?thesis
    using f64_round_rounds [OF Q, of P] by (simp add: f64_div_def PQ)
qed

lemma f64_rounds_exact:
  assumes "f64_rounds x y" "x = real_of_int M * 2 powi E" "\<bar>M\<bar> < 2 ^ 53"
  shows "f64_val y = x"
  using assms unfolding f64_rounds_def by blast

lemma f64_rounds_nonneg:
  assumes "f64_rounds x y" "0 \<le> x"
  shows "0 \<le> f64_val y"
  using assms unfolding f64_rounds_def by blast


lemma f64_rounds_upper:
  assumes "f64_rounds x y" "0 \<le> x" "x \<le> c"
  shows "f64_val y \<le> c * (1 + 1 / 2 ^ 53)"
proof -
  have "\<bar>f64_val y - x\<bar> \<le> \<bar>x\<bar> / 2 ^ 53"
    using assms(1) unfolding f64_rounds_def by blast
  then have "f64_val y \<le> x + x / 2 ^ 53"
    using assms(2) by linarith
  also have "\<dots> = x * (1 + 1 / 2 ^ 53)"
    by (simp add: algebra_simps)
  finally have "f64_val y \<le> x * (1 + 1 / 2 ^ 53)" .
  also have "\<dots> \<le> c * (1 + 1 / 2 ^ 53)"
    using assms(3) by (intro mult_right_mono) auto
  finally show ?thesis .
qed

lemma f64_rounds_abs:
  assumes "f64_rounds x y" "\<bar>x\<bar> \<le> c"
  shows "\<bar>f64_val y\<bar> \<le> c * (1 + 1 / 2 ^ 53)"
proof -
  have "\<bar>f64_val y - x\<bar> \<le> \<bar>x\<bar> / 2 ^ 53"
    using assms(1) unfolding f64_rounds_def by blast
  then have "\<bar>f64_val y\<bar> \<le> \<bar>x\<bar> + \<bar>x\<bar> / 2 ^ 53"
    by linarith
  also have "\<dots> = \<bar>x\<bar> * (1 + 1 / 2 ^ 53)"
    by (simp add: algebra_simps)
  finally have "\<bar>f64_val y\<bar> \<le> \<bar>x\<bar> * (1 + 1 / 2 ^ 53)" .
  also have "\<dots> \<le> c * (1 + 1 / 2 ^ 53)"
    using assms(2) by (intro mult_right_mono) auto
  finally show ?thesis .
qed

lemma f64_of_int_exact:
  assumes "\<bar>i\<bar> < 2 ^ 53"
  shows "f64_val (f64_of_int i) = real_of_int i"
  using f64_rounds_exact [OF f64_of_int_rounds, of i i 0] assms by simp



lemma wrap64_id:
  assumes "- (2 ^ 63) \<le> x" "x < 2 ^ 63"
  shows "wrap64 x = x"
proof -
  have "(x + 2 ^ 63) mod 2 ^ 64 = x + 2 ^ 63"
    using assms by (intro mod_pos_pos_trivial) auto
  then show ?thesis by (simp add: wrap64_def)
qed

lemma f64_val_nonneg_iff: "0 \<le> f64_val x \<longleftrightarrow> 0 \<le> mant x"
proof -
  have "\<not> (2::real) powi expo x \<le> 0" by (simp add: not_le)
  then show ?thesis by (simp add: f64_val_def zero_le_mult_iff)
qed

lemma f64_trunc_floor:
  assumes "0 \<le> f64_val x"
  shows "f64_trunc x = \<lfloor>f64_val x\<rfloor>"
proof (cases "0 \<le> expo x")
  case True
  then have "f64_val x = real_of_int (mant x * 2 ^ nat (expo x))"
    by (simp add: f64_val_def power_int_nonneg_exp)
  then have "\<lfloor>f64_val x\<rfloor> = mant x * 2 ^ nat (expo x)"
    by (simp only: floor_of_int)
  then show ?thesis using True by (simp add: f64_trunc_def)
next
  case False
  have m: "0 \<le> mant x" using assms by (simp add: f64_val_nonneg_iff)
  have "(2::real) powi (expo x) = 1 / 2 ^ nat (- expo x)"
    using False power_int_minus_divide [of "2::real" "- expo x"]
    by (simp add: power_int_nonneg_exp)
  then have "f64_val x = real_of_int (mant x) / real_of_int (2 ^ nat (- expo x))"
    by (simp add: f64_val_def)
  then have "\<lfloor>f64_val x\<rfloor> = mant x div 2 ^ nat (- expo x)"
    by (simp only: floor_divide_of_int_eq)
  moreover have "sgn (mant x) * (\<bar>mant x\<bar> div 2 ^ nat (- expo x)) = mant x div 2 ^ nat (- expo x)"
    using m by (cases "mant x = 0") simp_all
  ultimately show ?thesis using False by (simp add: f64_trunc_def)
qed

lemma f64_trunc_small:
  assumes "\<bar>f64_val x\<bar> < 1"
  shows "f64_trunc x = 0"
proof (cases "0 \<le> expo x")
  case True
  have "\<bar>f64_val x\<bar> = real_of_int (\<bar>mant x\<bar> * 2 ^ nat (expo x))"
    using True by (simp add: f64_val_def power_int_nonneg_exp abs_mult)
  then have "real_of_int (\<bar>mant x\<bar> * 2 ^ nat (expo x)) < real_of_int 1"
    using assms by simp
  then have "\<bar>mant x\<bar> * 2 ^ nat (expo x) < 1"
    by (simp only: of_int_less_iff)
  then have "\<bar>mant x * 2 ^ nat (expo x)\<bar> < 1"
    by (simp add: abs_mult)
  then have "mant x * 2 ^ nat (expo x) = 0"
    by arith
  then show ?thesis using True by (simp add: f64_trunc_def)
next
  case False
  have "(2::real) powi (expo x) = 1 / 2 ^ nat (- expo x)"
    using False power_int_minus_divide [of "2::real" "- expo x"]
    by (simp add: power_int_nonneg_exp)
  then have "\<bar>f64_val x\<bar> = real_of_int \<bar>mant x\<bar> / 2 ^ nat (- expo x)"
    by (simp add: f64_val_def abs_mult)
  with assms have "real_of_int \<bar>mant x\<bar> / 2 ^ nat (- expo x) < 1"
    by (simp only:)
  then have "real_of_int \<bar>mant x\<bar> < 2 ^ nat (- expo x)"
    by (simp add: pos_divide_less_eq)
  then have "real_of_int \<bar>mant x\<bar> < real_of_int (2 ^ nat (- expo x))"
    by simp
  then have "\<bar>mant x\<bar> < 2 ^ nat (- expo x)"
    by (simp only: of_int_less_iff)
  then have "\<bar>mant x\<bar> div 2 ^ nat (- expo x) = 0"
    by (intro div_pos_pos_trivial) auto
  then show ?thesis using False by (simp add: f64_trunc_def)
qed

section \<open>Properties of package time\<close>

lemma go_quot_rem_nonneg:
  assumes "0 \<le> a" "0 < b"
  shows "go_quot a b = a div b" and "go_rem a b = a mod b"
proof -
  show q: "go_quot a b = a div b"
  proof (cases "a = 0")
    case True
    then show ?thesis by (simp add: go_quot_def)
  next
    case False
    then show ?thesis using assms by (simp add: go_quot_def)
  qed
  show "go_rem a b = a mod b"
    by (simp add: go_rem_def q minus_mult_div_eq_mod)
qed

lemma f64_const_1e9: "f64_val (F64 1000000000 0) = 1000000000"
  by (simp add: f64_val_def)

lemma Duration_Seconds_bounds:
  assumes "0 \<le> d" "d < 2 ^ 63"
  shows "0 \<le> f64_val (Duration_Seconds d)" and "f64_val (Duration_Seconds d) \<le> 9223372038"
proof -
  define sec where "sec = d div 1000000000"
  define nsec where "nsec = d mod 1000000000"
  define fr where "fr = f64_div (f64_of_int nsec) (F64 1000000000 0)"
  have S: "Duration_Seconds d = f64_add (f64_of_int sec) fr"
    using go_quot_rem_nonneg [of d 1000000000] assms(1)
    by (simp add: Duration_Seconds_def Second_def sec_def nsec_def fr_def)
  have "d div 1000000000 \<le> (2 ^ 63 - 1) div 1000000000"
    using assms(2) by (intro zdiv_mono1) auto
  then have sec: "0 \<le> sec" "sec \<le> 9223372036"
    using assms(1) by (simp_all add: sec_def pos_imp_zdiv_nonneg_iff)
  have nsec: "0 \<le> nsec" "nsec < 1000000000"
    by (simp_all add: nsec_def)
  have vsec: "f64_val (f64_of_int sec) = real_of_int sec"
    using sec by (intro f64_of_int_exact) simp
  have vnsec: "f64_val (f64_of_int nsec) = real_of_int nsec"
    using nsec by (intro f64_of_int_exact) simp
  have rfr: "f64_rounds (real_of_int nsec / 1000000000) fr"
    using f64_div_rounds [of "F64 1000000000 0" "f64_of_int nsec"]
    by (simp add: fr_def vnsec f64_const_1e9)
  have q0: "0 \<le> real_of_int nsec / 1000000000" using nsec by simp
  have q1: "real_of_int nsec / 1000000000 \<le> 1" using nsec by simp
  have fr0: "0 \<le> f64_val fr"
    using f64_rounds_nonneg [OF rfr q0] .
  have fr1: "f64_val fr \<le> 1 * (1 + 1 / 2 ^ 53)"
    using f64_rounds_upper [OF rfr q0 q1] .
  have rs: "f64_rounds (real_of_int sec + f64_val fr) (Duration_Seconds d)"
    using f64_add_rounds [of "f64_of_int sec" fr] by (simp add: S vsec)
  have s0: "0 \<le> real_of_int sec + f64_val fr" using sec fr0 by simp
  have "real_of_int sec \<le> 9223372036" using sec by simp
  then have s1: "real_of_int sec + f64_val fr \<le> 9223372037 + 1 / 2 ^ 53" using fr1 by simp
  show "0 \<le> f64_val (Duration_Seconds d)"
    using f64_rounds_nonneg [OF rs s0] .
  have "f64_val (Duration_Seconds d) \<le> (9223372037 + 1 / 2 ^ 53) * (1 + 1 / 2 ^ 53)"
    using f64_rounds_upper [OF rs s0 s1] .
  also have "\<dots> \<le> 9223372038" by simp
  finally show "f64_val (Duration_Seconds d) \<le> 9223372038" .
qed


section \<open>Admission limiter: the refill stays inside the 64-bit integers\<close>

lemma sinceLast_range:
  assumes "lastUpdate rl \<le> now"
  shows "0 \<le> sinceLast rl now" and "sinceLast rl now < 2 ^ 63"
  using assms by (simp_all add: sinceLast_def Time_Sub_def Let_def)


lemma refillProduct_bounds:
  assumes "0 \<le> rate rl" "rate rl \<le> 2 ^ 28" "lastUpdate rl \<le> now"
  shows "0 \<le> f64_val (refillProduct rl now)" and "f64_val (refillProduct rl now) < 2 ^ 62"
proof -
  define S where "S = Duration_Seconds (sinceLast rl now)"
  have S0: "0 \<le> f64_val S" and S1: "f64_val S \<le> 9223372038"
    unfolding S_def using Duration_Seconds_bounds [OF sinceLast_range [OF assms(3)]] by simp_all
  have r: "f64_val (f64_of_int (rate rl)) = real_of_int (rate rl)"
    using assms(1,2) by (intro f64_of_int_exact) simp
  have rr: "f64_rounds (f64_val S * real_of_int (rate rl)) (refillProduct rl now)"
    using f64_mul_rounds [of S "f64_of_int (rate rl)"] by (simp add: refillProduct_def S_def r)
  have r0: "0 \<le> real_of_int (rate rl)" using assms(1) by simp
  have "real_of_int (rate rl) \<le> real_of_int (2 ^ 28)"
    using assms(2) by (simp only: of_int_le_iff)
  then have r1: "real_of_int (rate rl) \<le> 268435456" by simp
  have x0: "0 \<le> f64_val S * real_of_int (rate rl)"
    using S0 r0 by simp
  have x1: "f64_val S * real_of_int (rate rl) \<le> 9223372038 * 268435456"
    using S0 S1 r0 r1 by (intro mult_mono) auto
  show "0 \<le> f64_val (refillProduct rl now)"
    using f64_rounds_nonneg [OF rr x0] .
  have "f64_val (refillProduct rl now) \<le> 9223372038 * 268435456 * (1 + 1 / 2 ^ 53)"
    using f64_rounds_upper [OF rr x0 x1] .
  also have "\<dots> < 2 ^ 62" by simp
  finally show "f64_val (refillProduct rl now) < 2 ^ 62" .
qed


lemma tokensToAdd_in_range:
  assumes "0 \<le> rate rl" "rate rl \<le> 2 ^ 28" "lastUpdate rl \<le> now"
  shows "tokensToAdd rl now = Some \<lfloor>f64_val (refillProduct rl now)\<rfloor>"
    and "0 \<le> \<lfloor>f64_val (refillProduct rl now)\<rfloor>"
    and "\<lfloor>f64_val (refillProduct rl now)\<rfloor> < 2 ^ 62"
proof -
  note b = refillProduct_bounds [OF assms]
  show f0: "0 \<le> \<lfloor>f64_val (refillProduct rl now)\<rfloor>"
    using b(1) by simp
  have "f64_val (refillProduct rl now) < real_of_int (2 ^ 62)"
    using b(2) by simp
  then show f1: "\<lfloor>f64_val (refillProduct rl now)\<rfloor> < 2 ^ 62"
    by (simp only: floor_less_iff)
  have "f64_trunc (refillProduct rl now) = \<lfloor>f64_val (refillProduct rl now)\<rfloor>"
    using f64_trunc_floor [OF b(1)] .
  then show "tokensToAdd rl now = Some \<lfloor>f64_val (refillProduct rl now)\<rfloor>"
    using f0 f1 by (simp add: tokensToAdd_def int64_of_f64_def in_int64_def)
qed

text \<open>The bucket after the refill and the cap, before the comparison with the request.\<close>

lemma Allow_in_range:
  assumes "0 \<le> rate rl" "rate rl \<le> 2 ^ 28" "0 \<le> bucket rl" "bucket rl \<le> 2 ^ 62"
    and "lastUpdate rl \<le> now" and "- (2 ^ 62) \<le> n"
  defines "b \<equiv> min (rate rl) (bucket rl + \<lfloor>f64_val (refillProduct rl now)\<rfloor>)"
  shows "Allow rl now n =
           Some (if n \<le> b then (True, rl\<lparr>bucket := b - n, lastUpdate := now\<rparr>)
                 else (False, rl\<lparr>bucket := b, lastUpdate := now\<rparr>))"
    and "0 \<le> b" and "b \<le> rate rl"
proof -
  define t where "t = \<lfloor>f64_val (refillProduct rl now)\<rfloor>"
  note T = tokensToAdd_in_range [OF assms(1,2,5), folded t_def]
  have w1: "wrap64 (bucket rl + t) = bucket rl + t"
    using T(2,3) assms(3,4) by (intro wrap64_id) auto
  have b: "b = (if bucket rl + t > rate rl then rate rl else bucket rl + t)"
    by (simp add: b_def t_def min_def)
  show b0: "0 \<le> b" using assms(1,3) T(2) by (simp add: b)
  show b1: "b \<le> rate rl" by (simp add: b)
  have w2: "wrap64 (b - n) = b - n" if "n \<le> b"
    using that b1 assms(2,6) by (intro wrap64_id) auto
  show "Allow rl now n =
           Some (if n \<le> b then (True, rl\<lparr>bucket := b - n, lastUpdate := now\<rparr>)
                 else (False, rl\<lparr>bucket := b, lastUpdate := now\<rparr>))"
    using w2 by (simp add: Allow_def T(1) w1 Let_def b [symmetric])
qed

lemma Allow_step:
  assumes "0 \<le> rate rl" "rate rl \<le> 2 ^ 28" "0 \<le> bucket rl" "bucket rl \<le> 2 ^ 62"
    and "0 \<le> dt" and "- (2 ^ 61) \<le> n"
  shows "\<exists>ok rl'. Allow rl (lastUpdate rl + dt) n = Some (ok, rl') \<and> rate rl' = rate rl \<and>
           0 \<le> bucket rl' \<and> bucket rl' \<le> 2 ^ 62 \<and> (0 \<le> n \<longrightarrow> bucket rl' \<le> rate rl') \<and>
           (n < 0 \<longrightarrow> ok \<and> - n \<le> bucket rl' \<and> bucket rl' \<le> rate rl' - n)"
proof -
  define b where "b = min (rate rl) (bucket rl + \<lfloor>f64_val (refillProduct rl (lastUpdate rl + dt))\<rfloor>)"
  have t: "lastUpdate rl \<le> lastUpdate rl + dt" using assms(5) by simp
  have n: "- (2 ^ 62) \<le> n" using assms(6) by simp
  note A = Allow_in_range [OF assms(1-4) t n, folded b_def]
  show ?thesis
  proof (cases "n \<le> b")
    case True
    then have "Allow rl (lastUpdate rl + dt) n
        = Some (True, rl\<lparr>bucket := b - n, lastUpdate := lastUpdate rl + dt\<rparr>)"
      using A(1) by simp
    moreover have "0 \<le> b - n" using True by simp
    moreover have "b - n \<le> 2 ^ 62" using A(3) assms(2,6) by simp
    moreover have "0 \<le> n \<longrightarrow> b - n \<le> rate rl" using A(3) by simp
    moreover have "- n \<le> b - n" "b - n \<le> rate rl - n" using A(2,3) by simp_all
    ultimately show ?thesis by auto
  next
    case False
    then have "Allow rl (lastUpdate rl + dt) n
        = Some (False, rl\<lparr>bucket := b, lastUpdate := lastUpdate rl + dt\<rparr>)"
      using A(1) by simp
    moreover have "b \<le> 2 ^ 62" using A(3) assms(2) by simp
    moreover have "\<not> n < 0" using False A(2) by simp
    ultimately show ?thesis using A(2,3) by auto
  qed
qed

lemma Allow_calls_inv:
  assumes "0 \<le> rate rl" "rate rl \<le> 2 ^ 28" "0 \<le> bucket rl" "bucket rl \<le> 2 ^ 62"
    and "\<forall>c \<in> set calls. 0 \<le> fst c \<and> - (2 ^ 61) \<le> snd c"
  shows "\<exists>obs. Allow_calls rl calls = Some obs \<and> length obs = length calls \<and>
           (\<forall>(c, ok, s) \<in> set (zip calls obs).
              rate s = rate rl \<and> 0 \<le> bucket s \<and> (0 \<le> snd c \<longrightarrow> bucket s \<le> rate s) \<and>
              (snd c < 0 \<longrightarrow> ok \<and> - snd c \<le> bucket s \<and> bucket s \<le> rate s - snd c))"
  using assms
proof (induction calls arbitrary: rl)
  case Nil
  then show ?case by simp
next
  case (Cons c cs)
  obtain dt n where c: "c = (dt, n)" by (cases c)
  have dt: "0 \<le> dt" and n: "- (2 ^ 61) \<le> n"
    using Cons.prems(5) by (simp_all add: c)
  obtain ok rl' where A: "Allow rl (lastUpdate rl + dt) n = Some (ok, rl')"
    and r: "rate rl' = rate rl" and b0: "0 \<le> bucket rl'" and b1: "bucket rl' \<le> 2 ^ 62"
    and b2: "0 \<le> n \<longrightarrow> bucket rl' \<le> rate rl'"
    and b3: "n < 0 \<longrightarrow> ok \<and> - n \<le> bucket rl' \<and> bucket rl' \<le> rate rl' - n"
    using Allow_step [OF Cons.prems(1-4) dt n] by blast
  have "\<forall>c \<in> set cs. 0 \<le> fst c \<and> - (2 ^ 61) \<le> snd c"
    using Cons.prems(5) by simp
  then obtain obs where O: "Allow_calls rl' cs = Some obs" "length obs = length cs"
    and I: "\<forall>(c, ok, s) \<in> set (zip cs obs).
              rate s = rate rl' \<and> 0 \<le> bucket s \<and> (0 \<le> snd c \<longrightarrow> bucket s \<le> rate s) \<and>
              (snd c < 0 \<longrightarrow> ok \<and> - snd c \<le> bucket s \<and> bucket s \<le> rate s - snd c)"
    using Cons.IH [of rl'] Cons.prems(1,2) r b0 b1 by auto
  have "Allow_calls rl (c # cs) = Some ((ok, rl') # obs)"
    by (simp add: c A O)
  moreover have "length ((ok, rl') # obs) = length (c # cs)"
    using O(2) by simp
  moreover have "\<forall>(c, ok, s) \<in> set (zip (c # cs) ((ok, rl') # obs)).
              rate s = rate rl \<and> 0 \<le> bucket s \<and> (0 \<le> snd c \<longrightarrow> bucket s \<le> rate s) \<and>
              (snd c < 0 \<longrightarrow> ok \<and> - snd c \<le> bucket s \<and> bucket s \<le> rate s - snd c)"
    using I r b0 b2 b3 by (auto simp: c)
  ultimately show ?case by blast
qed

section \<open>Delivery agent: the delay and the retry loop\<close>

lemma jitterFactor_zero:
  assumes "0 \<le> f64_val r" "f64_val r < 1"
  shows "jitterFactor r = Some 0"
proof -
  define h where "h = f64_mul r (F64 1 (- 1))"
  define j where "j = f64_sub h (F64 1 (- 2))"
  have half: "f64_val (F64 1 (- 1)) = 1 / 2" and quarter: "f64_val (F64 1 (- 2)) = 1 / 4"
    by (simp_all add: f64_val_def power_int_minus_divide)
  have rh: "f64_rounds (f64_val r * (1 / 2)) h"
    using f64_mul_rounds [of r "F64 1 (- 1)"] by (simp only: h_def half)
  have x0: "0 \<le> f64_val r * (1 / 2)" and x1: "f64_val r * (1 / 2) \<le> 1 / 2"
    using assms by simp_all
  have h0: "0 \<le> f64_val h"
    using f64_rounds_nonneg [OF rh x0] .
  have h1: "f64_val h \<le> (1 / 2) * (1 + 1 / 2 ^ 53)"
    using f64_rounds_upper [OF rh x0 x1] .
  have rj: "f64_rounds (f64_val h - 1 / 4) j"
    using f64_sub_rounds [of h "F64 1 (- 2)"] by (simp only: j_def quarter)
  have "(1 / 2) * (1 + 1 / 2 ^ 53) \<le> (3 / 4 :: real)"
    by simp
  with h1 have "f64_val h \<le> 3 / 4"
    by (rule order_trans)
  with h0 have "\<bar>f64_val h - 1 / 4\<bar> \<le> 1 / 2"
    by linarith
  then have "\<bar>f64_val j\<bar> \<le> (1 / 2) * (1 + 1 / 2 ^ 53)"
    by (rule f64_rounds_abs [OF rj])
  then have "\<bar>f64_val j\<bar> < 1" by simp
  then have "f64_trunc j = 0" by (rule f64_trunc_small)
  then show ?thesis
    by (simp add: jitterFactor_def h_def [symmetric] j_def [symmetric] int64_of_f64_def in_int64_def)
qed

lemma unclampedDelay_exact:
  assumes "0 \<le> n" "n \<le> 1023" "0 \<le> base" "base < 2 ^ 53" "base * 2 ^ nat n < 2 ^ 63"
    and "0 \<le> f64_val r" "f64_val r < 1"
  shows "unclampedDelay n base r = Some (base * 2 ^ nat n)"
proof -
  define d where "d = f64_mul (f64_of_int base) (F64 1 n)"
  have P: "math_Pow2 n = Some (F64 1 n)"
    using assms(1,2) by (simp add: math_Pow2_def)
  have b: "f64_val (f64_of_int base) = real_of_int base"
    using assms(3,4) by (intro f64_of_int_exact) simp
  have p: "f64_val (F64 1 n) = 2 powi n"
    by (simp add: f64_val_def)
  have rd: "f64_rounds (real_of_int base * 2 powi n) d"
    using f64_mul_rounds [of "f64_of_int base" "F64 1 n"] by (simp only: d_def b p)
  have "f64_val d = real_of_int base * 2 powi n"
    using assms(3,4) by (intro f64_rounds_exact [OF rd, of base n]) simp_all
  also have "\<dots> = real_of_int (base * 2 ^ nat n)"
    using assms(1) by (simp add: power_int_nonneg_exp)
  finally have v: "f64_val d = real_of_int (base * 2 ^ nat n)" .
  have nn: "0 \<le> base * 2 ^ nat n" using assms(3) by simp
  then have "0 \<le> f64_val d" by (simp only: v of_int_0_le_iff)
  then have "f64_trunc d = \<lfloor>f64_val d\<rfloor>" by (rule f64_trunc_floor)
  then have t: "f64_trunc d = base * 2 ^ nat n"
    by (simp only: v floor_of_int)
  have D: "int64_of_f64 d = Some (base * 2 ^ nat n)"
    using nn assms(5) by (simp add: int64_of_f64_def t in_int64_def)
  have w: "wrap64 (base * 2 ^ nat n) = base * 2 ^ nat n"
    using nn assms(5) by (intro wrap64_id) auto
  have w0: "wrap64 0 = 0" by (simp add: wrap64_def)
  show ?thesis
    by (simp add: unclampedDelay_def P d_def [symmetric] D jitterFactor_zero [OF assms(6,7)] w w0)
qed

lemma calculateDelay_exact:
  assumes "0 \<le> n" "n \<le> 1023" "0 \<le> base" "base < 2 ^ 53" "base * 2 ^ nat n < 2 ^ 63"
    and "0 \<le> f64_val r" "f64_val r < 1"
  shows "calculateDelay n base mx r = Some (min (base * 2 ^ nat n) mx)"
  by (simp add: calculateDelay_def unclampedDelay_exact [OF assms] min_def)

lemma calculateDelay_program:
  assumes "0 \<le> n" "n < maxRetries - 1" "0 \<le> f64_val r" "f64_val r < 1"
  shows "calculateDelay n baseDelay maxDelay r = Some (100000000 * 2 ^ nat n)"
proof -
  have n: "n = 0 \<or> n = 1 \<or> n = 2 \<or> n = 3"
    using assms(1,2) by (auto simp: maxRetries_def)
  then have le: "(100000000::int) * 2 ^ nat n \<le> 800000000"
    by auto
  have "calculateDelay n baseDelay maxDelay r = Some (min (baseDelay * 2 ^ nat n) maxDelay)"
    using n le assms(1)
    by (intro calculateDelay_exact [OF _ _ _ _ _ assms(3,4)])
       (auto simp: baseDelay_def Millisecond_def)
  then show ?thesis
    using le by (simp add: baseDelay_def Millisecond_def maxDelay_def Second_def)
qed

lemma pow2_bound_exp:
  assumes "0 < base" "base * 2 ^ nat n < (2::int) ^ 63"
  shows "n \<le> 1023"
proof -
  have "(2::int) ^ nat n \<le> base * 2 ^ nat n"
    using assms(1) by (simp add: mult_le_cancel_right1)
  then have "(2::int) ^ nat n < 2 ^ 63"
    using assms(2) by (rule order.strict_trans1)
  then have "nat n < 63"
    using power_less_imp_less_exp [of "2::int" "nat n" 63] by simp
  then show ?thesis by simp
qed

lemma calculateDelay_le_max:
  assumes "calculateDelay n base mx r = Some d"
  shows "d \<le> mx"
  using assms by (auto simp: calculateDelay_def split: option.splits if_splits)

lemma sendWithRetry_loop_done:
  "sendWithRetry_loop client rnd 5 tr = Some (Some (MaxRetriesExceeded 5), tr)"
  by (subst sendWithRetry_loop.simps) (simp add: maxRetries_def)

lemma sendWithRetry_loop_last:
  assumes "isRetryableError (client 4)"
  shows "sendWithRetry_loop client rnd 4 tr = Some (Some (MaxRetriesExceeded 5), tr @ [Send 4])"
proof -
  obtain e where e: "client 4 = Some e" using assms by (cases "client 4") auto
  show ?thesis
    using assms
    by (subst sendWithRetry_loop.simps)
       (simp add: maxRetries_def e sendWithRetry_loop_done Let_def)
qed

lemma sendWithRetry_loop_retry:
  assumes "0 \<le> k" "k < maxRetries - 1" "isRetryableError (client k)"
    and "0 \<le> f64_val (rnd k)" "f64_val (rnd k) < 1"
  shows "sendWithRetry_loop client rnd k tr
           = sendWithRetry_loop client rnd (k + 1) (tr @ [Send k, Sleep (100000000 * 2 ^ nat k)])"
proof -
  obtain e where e: "client k = Some e" using assms(3) by (cases "client k") auto
  have d: "calculateDelay k baseDelay maxDelay (rnd k) = Some (100000000 * 2 ^ nat k)"
    using calculateDelay_program [OF assms(1,2,4,5)] .
  have lt: "k < maxRetries" using assms(2) by simp
  show ?thesis
    using assms(2,3) lt
    by (subst sendWithRetry_loop.simps) (simp add: e d Let_def)
qed

lemma sendWithRetry_exhausted:
  assumes "\<forall>k. 0 \<le> k \<and> k < maxRetries \<longrightarrow> isRetryableError (client k)"
    and "\<forall>k. 0 \<le> f64_val (rnd k) \<and> f64_val (rnd k) < 1"
  shows "sendWithRetry client rnd =
           Some (Some (MaxRetriesExceeded 5),
                 [Send 0, Sleep 100000000, Send 1, Sleep 200000000, Send 2, Sleep 400000000,
                  Send 3, Sleep 800000000, Send 4])"
proof -
  have r: "isRetryableError (client 0)" "isRetryableError (client 1)" "isRetryableError (client 2)"
    "isRetryableError (client 3)" "isRetryableError (client 4)"
    using assms(1) by (simp_all add: maxRetries_def)
  have rn: "0 \<le> f64_val (rnd k)" "f64_val (rnd k) < 1" for k
    using assms(2) by simp_all
  have s0: "sendWithRetry_loop client rnd 0 [] = sendWithRetry_loop client rnd 1 [Send 0, Sleep 100000000]"
    using sendWithRetry_loop_retry [of 0 client rnd "[]"] r rn by (simp add: maxRetries_def)
  have s1: "sendWithRetry_loop client rnd 1 tr = sendWithRetry_loop client rnd 2 (tr @ [Send 1, Sleep 200000000])" for tr
    using sendWithRetry_loop_retry [of 1 client rnd tr] r rn by (simp add: maxRetries_def)
  have s2: "sendWithRetry_loop client rnd 2 tr = sendWithRetry_loop client rnd 3 (tr @ [Send 2, Sleep 400000000])" for tr
    using sendWithRetry_loop_retry [of 2 client rnd tr] r rn by (simp add: maxRetries_def)
  have s3: "sendWithRetry_loop client rnd 3 tr = sendWithRetry_loop client rnd 4 (tr @ [Send 3, Sleep 800000000])" for tr
    using sendWithRetry_loop_retry [of 3 client rnd tr] r rn by (simp add: maxRetries_def)
  show ?thesis
    by (simp add: sendWithRetry_def s0 s1 s2 s3 sendWithRetry_loop_last [of client, OF r(5)])
qed

lemma sendWithRetry_abort:
  assumes "client 0 = Some e" "\<not> isRetryableError (Some e)"
  shows "sendWithRetry client rnd = Some (Some (NonRetryable e), [Send 0])"
  unfolding sendWithRetry_def using assms
  by (subst sendWithRetry_loop.simps) (simp add: maxRetries_def Let_def)

section \<open>Sink server: flush, append and the handler\<close>

lemma flushBuffer_empty:
  assumes "buffer s = []"
  shows "flushBuffer s env = (None, s)"
  using assms by (simp add: flushBuffer_def)

lemma flushBuffer_ok:
  assumes "buffer s \<noteq> []" "writeErr env = None" "flushErr env = None"
  shows "flushBuffer s env =
           (None, s\<lparr>fileWriter := fileWriter s @ [FileWrite (buffer s), FileFlush], buffer := []\<rparr>)"
  using assms by (simp add: flushBuffer_def)

lemma flushBuffer_cases:
  "flushBuffer s env =
     (if buffer s = [] then (None, s)
      else case writeErr env of
             Some err \<Rightarrow> (Some err, s\<lparr>fileWriter := fileWriter s @ [FileWrite (buffer s)]\<rparr>)
           | None \<Rightarrow>
               (case flushErr env of
                  Some err \<Rightarrow>
                    (Some err, s\<lparr>fileWriter := fileWriter s @ [FileWrite (buffer s), FileFlush]\<rparr>)
                | None \<Rightarrow>
                    (None, s\<lparr>fileWriter := fileWriter s @ [FileWrite (buffer s), FileFlush],
                              buffer := []\<rparr>)))"
  by (simp add: flushBuffer_def split: option.splits)

lemma flushBuffer_error:
  assumes "flushBuffer s env = (Some err, s')"
  shows "buffer s' = buffer s \<and> buffer s \<noteq> [] \<and> (writeErr env \<noteq> None \<or> flushErr env \<noteq> None) \<and>
         config s' = config s \<and> rateLimiter s' = rateLimiter s \<and> encryptor s' = encryptor s"
  using assms by (auto simp: flushBuffer_cases split: if_splits option.splits)

lemma flushBuffer_failure:
  assumes "buffer s \<noteq> []" "writeErr env \<noteq> None \<or> flushErr env \<noteq> None"
  shows "\<exists>err s'. flushBuffer s env = (Some err, s') \<and> buffer s' = buffer s \<and>
           fileWriter s' \<noteq> fileWriter s"
  using assms by (auto simp: flushBuffer_cases split: option.splits)

lemma flushBuffer_io:
  assumes "flushBuffer s env = (r, s')" "fileWriter s' \<noteq> fileWriter s"
  shows "buffer s \<noteq> []"
  using assms by (auto simp: flushBuffer_cases split: if_splits)

lemma appendLogData_fits:
  assumes "\<not> int (length (buffer s)) + int (length logData) > BufferSize (config s)"
  shows "appendLogData s env logData
           = (Inr ''Received successfully'', s\<lparr>buffer := buffer s @ logData\<rparr>)"
  using assms by (simp add: appendLogData_def)

lemma appendLogData_flush_ok:
  assumes "int (length (buffer s)) + int (length logData) > BufferSize (config s)"
    and "writeErr env = None" "flushErr env = None"
  shows "appendLogData s env logData =
           (Inr ''Received successfully'',
            s\<lparr>fileWriter := fileWriter s @ (if buffer s = [] then [] else [FileWrite (buffer s), FileFlush]),
              buffer := logData\<rparr>)"
  using assms by (simp add: appendLogData_def flushBuffer_cases)

lemma appendLogData_flush_failure:
  assumes "int (length (buffer s)) + int (length logData) > BufferSize (config s)"
    and "buffer s \<noteq> []" "writeErr env \<noteq> None \<or> flushErr env \<noteq> None"
  shows "\<exists>s'. appendLogData s env logData = (Inl Internal, s') \<and> buffer s' = buffer s"
  using assms by (auto simp: appendLogData_def flushBuffer_cases split: option.splits)

lemma appendLogData_io_failure:
  assumes "appendLogData s env logData = (r, s')" "fileWriter s' \<noteq> fileWriter s"
    and "writeErr env \<noteq> None \<or> flushErr env \<noteq> None"
  shows "r = Inl Internal \<and> buffer s' = buffer s"
  using assms
  by (auto simp: appendLogData_def flushBuffer_cases split: if_splits option.splits)

lemma SendSensorData_io_failure:
  assumes "SendSensorData s env = Some (r, s')" "fileWriter s' \<noteq> fileWriter s"
    and "writeErr env \<noteq> None \<or> flushErr env \<noteq> None"
  shows "r = Inl Internal \<and> buffer s' = buffer s"
proof -
  have *: "r = Inl Internal \<and> buffer s' = buffer s"
    if "appendLogData (s\<lparr>rateLimiter := rl\<rparr>) env l = (r, s')" for rl l
    using appendLogData_io_failure [OF that _ assms(3)] assms(2) by simp
  show ?thesis
    using assms(1,2) *
    by (auto simp: SendSensorData_def Let_def
        split: option.splits sum.splits if_splits prod.splits)
qed

lemma validate_fails_iff:
  "validateClientCertificateIfMTLS s env \<noteq> None \<longleftrightarrow>
     UseTLS (config s) \<and> CAFile (config s) \<noteq> [] \<and>
     (peer env = None \<or> peer env = Some OtherAuthInfo \<or> peer env = Some (TLSInfo []))"
  by (auto simp: validateClientCertificateIfMTLS_def split: option.splits AuthInfo.splits)

lemma SendSensorData_unauthenticated:
  assumes "validateClientCertificateIfMTLS s env \<noteq> None"
  shows "SendSensorData s env = Some (Inl Unauthenticated, s)"
  using assms by (auto simp: SendSensorData_def)

section \<open>Payload encryptor: what holds for every AEAD\<close>

text \<open>
  The layout of the envelope and the length check are the repository's code. With an AEAD
  whose \<open>Open\<close> inverts \<open>Seal\<close> and a nonce of the AEAD's size, \<open>Decrypt\<close> returns the
  plaintext of \<open>Encrypt\<close>; an input shorter than the nonce is refused before \<open>Open\<close> is
  called. That \<open>Open\<close> rejects an envelope with one byte changed is a property of AES-GCM
  itself, which is not part of the repository.
\<close>

lemma Decrypt_Encrypt:
  assumes "length nonce = NonceSize gcm"
    and "Open gcm nonce (Seal gcm nonce plaintext) = Some plaintext"
  shows "Encrypt gcm (Inr nonce) plaintext = Inr (nonce @ Seal gcm nonce plaintext)"
    and "Decrypt gcm (nonce @ Seal gcm nonce plaintext) = Inr plaintext"
  using assms by (simp_all add: Encrypt_def Decrypt_def)

lemma Decrypt_too_short:
  assumes "length ciphertext < NonceSize gcm"
  shows "Decrypt gcm ciphertext = Inl ''ciphertext too short''"
  using assms by (simp add: Decrypt_def)

section \<open>Admission limiter: claims\<close>

text \<open>
  C1, as stated, fails: a call with a negative size is admitted and subtracting the negative
  size raises \<open>available\<close> above \<open>capacity\<close>. A fresh limiter of rate 100 that admits
  \<open>Allow(-10)\<close> is left with 110 tokens (the repository's test \<open>negative bytes\<close> expects
  exactly this).
\<close>

theorem Allow_negative_size_breaks_cap:
  "Allow_calls (NewRateLimiter 100 0) [(0, - 10)]
     = Some [(True, \<lparr>rate = 100, bucket = 110, lastUpdate = 0\<rparr>)]
   \<and> \<not> quota_inv \<lparr>rate = 100, bucket = 110, lastUpdate = 0\<rparr>"
  by code_simp

text \<open>
  C1 (amended). For a limiter with \<open>0 \<le> rate \<le> 2 ^ 28\<close> that starts with
  \<open>0 \<le> available \<le> capacity\<close>, and every sequence of \<open>Allow\<close> calls with non-negative
  elapsed times and sizes not below \<open>- 2 ^ 61\<close> (the bounds keep every intermediate result
  inside the 64-bit integers): every call returns; \<open>0 \<le> available\<close> holds at every
  observation point; \<open>available \<le> capacity\<close> holds after every call whose size is not
  negative; and a call with a negative size \<open>- k\<close> is admitted and leaves
  \<open>k \<le> available \<le> capacity + k\<close>. In particular, when no size is negative,
  \<open>0 \<le> available \<le> capacity\<close> holds at every observation point.
\<close>

theorem Allow_calls_quota_invariant:
  assumes "0 \<le> rate rl" "rate rl \<le> 2 ^ 28" "0 \<le> bucket rl" "bucket rl \<le> rate rl"
    and "\<forall>c \<in> set calls. 0 \<le> fst c \<and> - (2 ^ 61) \<le> snd c"
  shows "\<exists>obs. Allow_calls rl calls = Some obs \<and> length obs = length calls \<and>
           (\<forall>(c, ok, s) \<in> set (zip calls obs).
              rate s = rate rl \<and> 0 \<le> bucket s \<and> (0 \<le> snd c \<longrightarrow> bucket s \<le> rate s) \<and>
              (snd c < 0 \<longrightarrow> ok \<and> - snd c \<le> bucket s \<and> bucket s \<le> rate s - snd c)) \<and>
           ((\<forall>c \<in> set calls. 0 \<le> snd c) \<longrightarrow>
              quota_inv rl \<and> (\<forall>(ok, s) \<in> set obs. quota_inv s))"
proof -
  have "bucket rl \<le> 2 ^ 62" using assms(2,4) by simp
  from Allow_calls_inv [OF assms(1,2,3) this assms(5)]
  obtain obs where O: "Allow_calls rl calls = Some obs" and L: "length obs = length calls"
    and I: "\<forall>(c, ok, s) \<in> set (zip calls obs).
              rate s = rate rl \<and> 0 \<le> bucket s \<and> (0 \<le> snd c \<longrightarrow> bucket s \<le> rate s) \<and>
              (snd c < 0 \<longrightarrow> ok \<and> - snd c \<le> bucket s \<and> bucket s \<le> rate s - snd c)"
    by blast
  have q0: "quota_inv rl"
    using assms(3,4) by (simp add: quota_inv_def)
  have "quota_inv s" if nn: "\<forall>c \<in> set calls. 0 \<le> snd c" and s: "(ok, s) \<in> set obs" for ok s
  proof -
    obtain c where cs: "(c, ok, s) \<in> set (zip calls obs)"
      using s L by (metis in_set_impl_in_set_zip2)
    then have "c \<in> set calls" by (rule set_zip_leftD)
    then show ?thesis using I cs nn by (auto simp: quota_inv_def)
  qed
  then have "(\<forall>c \<in> set calls. 0 \<le> snd c) \<longrightarrow>
      quota_inv rl \<and> (\<forall>(ok, s) \<in> set obs. quota_inv s)"
    using q0 by auto
  then show ?thesis using O L I by blast
qed

lemma Allow_examples:
  "Allow \<lparr>rate = 100, bucket = 100, lastUpdate = 0\<rparr> 0 (- 10)
     = Some (True, \<lparr>rate = 100, bucket = 110, lastUpdate = 0\<rparr>)"
  "Allow \<lparr>rate = 100, bucket = 110, lastUpdate = 0\<rparr> 0 5
     = Some (True, \<lparr>rate = 100, bucket = 95, lastUpdate = 0\<rparr>)"
  by code_simp+

lemma Allow_calls_example:
  "Allow_calls (NewRateLimiter 100 0) [(0, - 10), (0, 5)]
     = Some [(True, \<lparr>rate = 100, bucket = 110, lastUpdate = 0\<rparr>),
             (True, \<lparr>rate = 100, bucket = 95, lastUpdate = 0\<rparr>)]"
  by (simp add: NewRateLimiter_def Allow_examples)

theorem Allow_calls_quota_invariant_witness:
  "(\<exists>obs. Allow_calls (NewRateLimiter 100 0) [(0, 50), (0, 50), (0, 1), (500000000, 80)] = Some obs \<and>
          length obs = 4 \<and> quota_inv (NewRateLimiter 100 0) \<and>
          (\<forall>(ok, s) \<in> set obs. quota_inv s)) \<and>
   (\<exists>obs. Allow_calls (NewRateLimiter 100 0) [(0, - 10), (0, 5)] = Some obs \<and>
          obs = [(True, \<lparr>rate = 100, bucket = 110, lastUpdate = 0\<rparr>),
                 (True, \<lparr>rate = 100, bucket = 95, lastUpdate = 0\<rparr>)] \<and>
          (\<forall>(c, ok, s) \<in> set (zip [(0, - 10), (0, 5)] obs).
             0 \<le> bucket s \<and> (0 \<le> snd c \<longrightarrow> bucket s \<le> rate s) \<and>
             (snd c < 0 \<longrightarrow> ok \<and> - snd c \<le> bucket s \<and> bucket s \<le> rate s - snd c)))"
  using Allow_calls_quota_invariant
      [of "NewRateLimiter 100 0" "[(0, 50), (0, 50), (0, 1), (500000000, 80)]"]
    Allow_calls_quota_invariant [of "NewRateLimiter 100 0" "[(0, - 10), (0, 5)]"]
    Allow_calls_example
  by (auto simp: NewRateLimiter_def simp del: Allow_calls.simps)





section \<open>Delivery agent: claims\<close>

text \<open>
  C5. The classification of a failed attempt is the fixed table: \<open>Unavailable\<close>,
  \<open>DeadlineExceeded\<close>, \<open>ResourceExhausted\<close> and \<open>Aborted\<close> are retryable;
  \<open>InvalidArgument\<close>, \<open>NotFound\<close>, \<open>PermissionDenied\<close> and \<open>Unauthenticated\<close> are not;
  every other code, and an error without a status, is retryable. When attempt 0 fails with a
  non-retryable error, \<open>sendWithRetry\<close> returns that error after one call of the transport
  and no sleep. When every attempt fails with a retryable error, \<open>sendWithRetry\<close> calls the
  transport five times (sleeping between the attempts, not after the last) and returns the
  error that the retries are exhausted; \<open>generateAndSendData\<close> logs it and returns.
\<close>

theorem sendWithRetry_classifies_and_bounds_attempts:
  "isRetryableError (Some (StatusError Unavailable)) \<and>
   isRetryableError (Some (StatusError DeadlineExceeded)) \<and>
   isRetryableError (Some (StatusError ResourceExhausted)) \<and>
   isRetryableError (Some (StatusError Aborted)) \<and>
   \<not> isRetryableError (Some (StatusError InvalidArgument)) \<and>
   \<not> isRetryableError (Some (StatusError NotFound)) \<and>
   \<not> isRetryableError (Some (StatusError PermissionDenied)) \<and>
   \<not> isRetryableError (Some (StatusError Unauthenticated)) \<and>
   (c \<notin> {InvalidArgument, NotFound, PermissionDenied, Unauthenticated}
      \<longrightarrow> isRetryableError (Some (StatusError c))) \<and>
   isRetryableError (Some PlainError) \<and>
   (client 0 = Some e \<and> \<not> isRetryableError (Some e)
      \<longrightarrow> sendWithRetry client rnd = Some (Some (NonRetryable e), [Send 0])) \<and>
   ((\<forall>k. 0 \<le> k \<and> k < maxRetries \<longrightarrow> isRetryableError (client k)) \<and>
    (\<forall>k. 0 \<le> f64_val (rnd k) \<and> f64_val (rnd k) < 1)
      \<longrightarrow> sendWithRetry client rnd =
            Some (Some (MaxRetriesExceeded 5),
                  [Send 0, Sleep 100000000, Send 1, Sleep 200000000, Send 2, Sleep 400000000,
                   Send 3, Sleep 800000000, Send 4]) \<and>
          generateAndSendData client rnd =
            Some [Send 0, Sleep 100000000, Send 1, Sleep 200000000, Send 2, Sleep 400000000,
                  Send 3, Sleep 800000000, Send 4,
                  LogFailure ''Failed to send data after retries''])"
proof -
  have t: "c \<notin> {InvalidArgument, NotFound, PermissionDenied, Unauthenticated}
      \<longrightarrow> isRetryableError (Some (StatusError c))"
    by (cases c) simp_all
  have a: "client 0 = Some e \<and> \<not> isRetryableError (Some e)
      \<longrightarrow> sendWithRetry client rnd = Some (Some (NonRetryable e), [Send 0])"
    using sendWithRetry_abort [of client e rnd] by blast
  have x: "sendWithRetry client rnd =
            Some (Some (MaxRetriesExceeded 5),
                  [Send 0, Sleep 100000000, Send 1, Sleep 200000000, Send 2, Sleep 400000000,
                   Send 3, Sleep 800000000, Send 4]) \<and>
          generateAndSendData client rnd =
            Some [Send 0, Sleep 100000000, Send 1, Sleep 200000000, Send 2, Sleep 400000000,
                  Send 3, Sleep 800000000, Send 4,
                  LogFailure ''Failed to send data after retries'']"
    if "\<forall>k. 0 \<le> k \<and> k < maxRetries \<longrightarrow> isRetryableError (client k)"
      and "\<forall>k. 0 \<le> f64_val (rnd k) \<and> f64_val (rnd k) < 1"
    using sendWithRetry_exhausted [OF that] by (simp add: generateAndSendData_def)
  show ?thesis
    using t a x by simp
qed

lemma f64_val_half: "f64_val (F64 1 (- 1)) = 1 / 2"
  by (simp add: f64_val_def power_int_minus_divide)

theorem sendWithRetry_classifies_and_bounds_attempts_witness:
  "sendWithRetry (\<lambda>k. Some (StatusError NotFound)) (\<lambda>k. F64 1 (- 1))
     = Some (Some (NonRetryable (StatusError NotFound)), [Send 0]) \<and>
   sendWithRetry (\<lambda>k. Some (StatusError Unavailable)) (\<lambda>k. F64 1 (- 1))
     = Some (Some (MaxRetriesExceeded 5),
             [Send 0, Sleep 100000000, Send 1, Sleep 200000000, Send 2, Sleep 400000000,
              Send 3, Sleep 800000000, Send 4]) \<and>
   generateAndSendData (\<lambda>k. Some (StatusError Unavailable)) (\<lambda>k. F64 1 (- 1))
     = Some [Send 0, Sleep 100000000, Send 1, Sleep 200000000, Send 2, Sleep 400000000,
             Send 3, Sleep 800000000, Send 4, LogFailure ''Failed to send data after retries''] \<and>
   isRetryableError (Some (StatusError Internal))"
  using sendWithRetry_classifies_and_bounds_attempts
      [of Internal "\<lambda>k. Some (StatusError NotFound)" "StatusError NotFound" "\<lambda>k. F64 1 (- 1)"]
    sendWithRetry_classifies_and_bounds_attempts
      [of Internal "\<lambda>k. Some (StatusError Unavailable)" "StatusError Unavailable" "\<lambda>k. F64 1 (- 1)"]
  by (simp add: f64_val_half)

text \<open>
  C6. For an attempt index \<open>0 \<le> n\<close>, a base delay \<open>0 < base < 2 ^ 53\<close> nanoseconds with
  \<open>base * 2 ^ n\<close> inside the 64-bit integers, and every value \<open>r\<close> in \<open>[0, 1)\<close> of the random
  source: the delay before clamping lies between \<open>0.75\<close> and \<open>1.25\<close> times \<open>base * 2 ^ n\<close>,
  and \<open>calculateDelay\<close> returns a delay that is at most the ceiling. Whatever the arguments,
  a delay that \<open>calculateDelay\<close> returns is at most the ceiling.
\<close>

theorem calculateDelay_backoff_bounds:
  "(calculateDelay n base mx r = Some d' \<longrightarrow> d' \<le> mx) \<and>
   (0 \<le> n \<and> 0 < base \<and> base < 2 ^ 53 \<and> base * 2 ^ nat n < 2 ^ 63 \<and>
    0 \<le> f64_val r \<and> f64_val r < 1 \<longrightarrow>
      (\<exists>d. unclampedDelay n base r = Some d \<and>
            real_of_int (base * 2 ^ nat n) * (3 / 4) \<le> real_of_int d \<and>
            real_of_int d \<le> real_of_int (base * 2 ^ nat n) * (5 / 4)) \<and>
      (\<exists>d. calculateDelay n base mx r = Some d \<and> d \<le> mx))"
proof -
  have 1: "calculateDelay n base mx r = Some d' \<longrightarrow> d' \<le> mx"
    using calculateDelay_le_max [of n base mx r d'] by blast
  have 2: "(\<exists>d. unclampedDelay n base r = Some d \<and>
            real_of_int (base * 2 ^ nat n) * (3 / 4) \<le> real_of_int d \<and>
            real_of_int d \<le> real_of_int (base * 2 ^ nat n) * (5 / 4)) \<and>
      (\<exists>d. calculateDelay n base mx r = Some d \<and> d \<le> mx)"
    if h: "0 \<le> n" "0 < base" "base < 2 ^ 53" "base * 2 ^ nat n < 2 ^ 63"
      "0 \<le> f64_val r" "f64_val r < 1"
  proof -
    have n: "n \<le> 1023" using pow2_bound_exp [OF h(2,4)] .
    have b: "0 \<le> base" using h(2) by simp
    have u: "unclampedDelay n base r = Some (base * 2 ^ nat n)"
      using unclampedDelay_exact [OF h(1) n b h(3,4,5,6)] .
    have c: "calculateDelay n base mx r = Some (min (base * 2 ^ nat n) mx)"
      using calculateDelay_exact [OF h(1) n b h(3,4,5,6)] .
    have "0 \<le> real_of_int (base * 2 ^ nat n)" using b by simp
    then have "real_of_int (base * 2 ^ nat n) * (3 / 4) \<le> real_of_int (base * 2 ^ nat n)"
      and "real_of_int (base * 2 ^ nat n) \<le> real_of_int (base * 2 ^ nat n) * (5 / 4)"
      by (simp_all add: mult_le_cancel_left1 mult_le_cancel_left2)
    then show ?thesis using u c by simp
  qed
  show ?thesis using 1 2 by blast
qed

theorem calculateDelay_backoff_bounds_witness:
  "(\<exists>d. unclampedDelay 10 baseDelay (F64 1 (- 1)) = Some d \<and>
        real_of_int (baseDelay * 2 ^ 10) * (3 / 4) \<le> real_of_int d \<and>
        real_of_int d \<le> real_of_int (baseDelay * 2 ^ 10) * (5 / 4)) \<and>
   (\<exists>d. calculateDelay 10 baseDelay maxDelay (F64 1 (- 1)) = Some d \<and> d \<le> maxDelay)"
  using calculateDelay_backoff_bounds [of 10 baseDelay maxDelay "F64 1 (- 1)"]
  by (simp add: f64_val_half baseDelay_def Millisecond_def)

text \<open>
  C10. For an attempt index \<open>0 \<le> n\<close>, a base delay \<open>0 < base < 2 ^ 53\<close> nanoseconds with
  \<open>base * 2 ^ n\<close> inside the 64-bit integers, and all values \<open>r\<close>, \<open>r'\<close> in \<open>[0, 1)\<close> of the
  random source: the jitter factor \<open>time.Duration(r*0.5-0.25)\<close> is 0, the delay returned is
  exactly \<open>min (base * 2 ^ n) maxDelay\<close>, and it is the same for \<open>r\<close> and \<open>r'\<close>.
\<close>

theorem calculateDelay_jitter_is_zero:
  assumes "0 \<le> n" "0 < base" "base < 2 ^ 53" "base * 2 ^ nat n < 2 ^ 63"
    and "0 \<le> f64_val r" "f64_val r < 1" and "0 \<le> f64_val r'" "f64_val r' < 1"
  shows "jitterFactor r = Some 0 \<and>
         calculateDelay n base mx r = Some (min (base * 2 ^ nat n) mx) \<and>
         calculateDelay n base mx r' = calculateDelay n base mx r"
proof -
  have n: "n \<le> 1023" using pow2_bound_exp [OF assms(2,4)] .
  have b: "0 \<le> base" using assms(2) by simp
  show ?thesis
    using jitterFactor_zero [OF assms(5,6)]
      calculateDelay_exact [OF assms(1) n b assms(3,4,5,6)]
      calculateDelay_exact [OF assms(1) n b assms(3,4,7,8)]
    by simp
qed

theorem calculateDelay_jitter_is_zero_witness:
  "jitterFactor (F64 1 (- 1)) = Some 0 \<and>
   calculateDelay 3 baseDelay maxDelay (F64 1 (- 1)) = Some 800000000 \<and>
   calculateDelay 3 baseDelay maxDelay (F64 0 0) = Some 800000000 \<and>
   calculateDelay 7 baseDelay maxDelay (F64 1 (- 1)) = Some 10000000000"
  using calculateDelay_jitter_is_zero [of 3 baseDelay "F64 1 (- 1)" "F64 0 0" maxDelay]
    calculateDelay_jitter_is_zero [of 7 baseDelay "F64 1 (- 1)" "F64 0 0" maxDelay]
  by (simp add: f64_val_half f64_val_def baseDelay_def Millisecond_def maxDelay_def Second_def)

section \<open>Sink server: claims\<close>

text \<open>
  C3. Every append of a log line whose file operations succeed ends with the line appended
  to the buffer, and the response is the success message. When the line fits
  (\<open>len(buffer) + len(logData) \<le> BufferSize\<close>) it is appended behind the pending bytes and no
  file operation is made. When it does not fit, the pending bytes are flushed first (one
  \<open>Write\<close> of the whole buffer and one \<open>Flush\<close>; nothing when the buffer is empty) and the
  new line is appended afterwards, so that it is then the whole content of the buffer. (When
  the file operations fail the request is answered with \<open>Internal\<close> and nothing is
  appended.) With a buffer of 10 bytes, appending 6 bytes and then 6 more bytes makes exactly
  one flush, which writes the first 6 bytes, and leaves the second 6 bytes in the buffer.
\<close>

theorem appendLogData_flush_then_append:
  "(int (length (buffer s)) + int (length logData) > BufferSize (config s) \<and>
    writeErr env = None \<and> flushErr env = None \<longrightarrow>
      appendLogData s env logData =
        (Inr ''Received successfully'',
         s\<lparr>fileWriter := fileWriter s @ (if buffer s = [] then [] else [FileWrite (buffer s), FileFlush]),
           buffer := logData\<rparr>)) \<and>
   (int (length (buffer s)) + int (length logData) \<le> BufferSize (config s) \<longrightarrow>
      appendLogData s env logData =
        (Inr ''Received successfully'', s\<lparr>buffer := buffer s @ logData\<rparr>)) \<and>
   (BufferSize (config s) = 10 \<and> buffer s = [] \<and> length a = 6 \<and> length b = 6 \<and>
    writeErr env = None \<and> flushErr env = None \<longrightarrow>
      appendLogData s env a = (Inr ''Received successfully'', s\<lparr>buffer := a\<rparr>) \<and>
      appendLogData (s\<lparr>buffer := a\<rparr>) env b =
        (Inr ''Received successfully'',
         s\<lparr>fileWriter := fileWriter s @ [FileWrite a, FileFlush], buffer := b\<rparr>))"
proof -
  have 1: "appendLogData s env logData =
        (Inr ''Received successfully'',
         s\<lparr>fileWriter := fileWriter s @ (if buffer s = [] then [] else [FileWrite (buffer s), FileFlush]),
           buffer := logData\<rparr>)"
    if "int (length (buffer s)) + int (length logData) > BufferSize (config s)"
      "writeErr env = None" "flushErr env = None"
    using appendLogData_flush_ok [OF that] .
  have 2: "appendLogData s env a = (Inr ''Received successfully'', s\<lparr>buffer := a\<rparr>) \<and>
      appendLogData (s\<lparr>buffer := a\<rparr>) env b =
        (Inr ''Received successfully'',
         s\<lparr>fileWriter := fileWriter s @ [FileWrite a, FileFlush], buffer := b\<rparr>)"
    if h: "BufferSize (config s) = 10" "buffer s = []" "length a = 6" "length b = 6"
      "writeErr env = None" "flushErr env = None"
  proof -
    have "appendLogData s env a = (Inr ''Received successfully'', s\<lparr>buffer := a\<rparr>)"
      using h(1,2,3) appendLogData_fits [of s a env] by simp
    moreover have "a \<noteq> []" using h(3) by auto
    then have "appendLogData (s\<lparr>buffer := a\<rparr>) env b =
        (Inr ''Received successfully'',
         s\<lparr>fileWriter := fileWriter s @ [FileWrite a, FileFlush], buffer := b\<rparr>)"
      using h(1,3,4) appendLogData_flush_ok [of "s\<lparr>buffer := a\<rparr>" b env, OF _ h(5,6)] by simp
    ultimately show ?thesis by simp
  qed
  have 3: "appendLogData s env logData =
        (Inr ''Received successfully'', s\<lparr>buffer := buffer s @ logData\<rparr>)"
    if "int (length (buffer s)) + int (length logData) \<le> BufferSize (config s)"
    using that appendLogData_fits [of s logData env] by simp
  show ?thesis using 1 2 3 by blast
qed

theorem appendLogData_flush_then_append_witness:
  "appendLogData example_server example_env [1, 2, 3, 4, 5, 6]
     = (Inr ''Received successfully'', example_server\<lparr>buffer := [1, 2, 3, 4, 5, 6]\<rparr>) \<and>
   appendLogData (example_server\<lparr>buffer := [1, 2, 3, 4, 5, 6]\<rparr>) example_env [7, 8, 9, 10, 11, 12]
     = (Inr ''Received successfully'',
        example_server\<lparr>fileWriter := [FileWrite [1, 2, 3, 4, 5, 6], FileFlush],
                       buffer := [7, 8, 9, 10, 11, 12]\<rparr>) \<and>
   appendLogData (example_server\<lparr>buffer := [1, 2, 3, 4, 5, 6]\<rparr>) example_env [7, 8, 9]
     = (Inr ''Received successfully'',
        example_server\<lparr>buffer := [1, 2, 3, 4, 5, 6, 7, 8, 9]\<rparr>)"
  using appendLogData_flush_then_append
      [of "example_server\<lparr>buffer := [1, 2, 3, 4, 5, 6]\<rparr>" "[7, 8, 9, 10, 11, 12]" example_env]
    appendLogData_flush_then_append
      [of example_server "[]" example_env "[1, 2, 3, 4, 5, 6]" "[7, 8, 9, 10, 11, 12]"]
    appendLogData_flush_then_append
      [of "example_server\<lparr>buffer := [1, 2, 3, 4, 5, 6]\<rparr>" "[7, 8, 9]" example_env]
  by (simp add: example_server_def example_config_def example_env_def)

text \<open>
  C7. \<open>flushBuffer\<close> on a buffer with pending bytes, when the file operations succeed, passes
  the whole buffer to one \<open>Write\<close>, calls \<open>Flush\<close>, and empties the buffer. On an empty buffer
  it makes no file operation and returns the server as it was.
\<close>

theorem flushBuffer_writes_all_then_resets:
  "(buffer s \<noteq> [] \<and> writeErr env = None \<and> flushErr env = None \<longrightarrow>
      flushBuffer s env =
        (None, s\<lparr>fileWriter := fileWriter s @ [FileWrite (buffer s), FileFlush], buffer := []\<rparr>)) \<and>
   (buffer s = [] \<longrightarrow> flushBuffer s env = (None, s))"
  using flushBuffer_ok [of s env] flushBuffer_empty [of s env] by blast

theorem flushBuffer_writes_all_then_resets_witness:
  "flushBuffer (example_server\<lparr>buffer := [1, 2, 3]\<rparr>) example_env
     = (None, example_server\<lparr>fileWriter := [FileWrite [1, 2, 3], FileFlush], buffer := []\<rparr>) \<and>
   flushBuffer example_server example_env = (None, example_server)"
  using flushBuffer_writes_all_then_resets [of "example_server\<lparr>buffer := [1, 2, 3]\<rparr>" example_env]
    flushBuffer_writes_all_then_resets [of example_server example_env]
  by (simp add: example_server_def example_env_def)

text \<open>
  C8. When \<open>Write\<close> or \<open>Flush\<close> returns an error, \<open>flushBuffer\<close> returns an error and the
  buffer keeps its content (whenever \<open>flushBuffer\<close> returns an error the buffer is as
  before). An append that needed the flush answers \<open>Internal\<close> and leaves the buffer as it
  was; so does every request of \<open>SendSensorData\<close> that reached the file while the file
  operations fail.
\<close>

theorem flush_failure_keeps_buffer:
  "(buffer s \<noteq> [] \<and> (writeErr env \<noteq> None \<or> flushErr env \<noteq> None) \<longrightarrow>
      (\<exists>err s'. flushBuffer s env = (Some err, s') \<and> buffer s' = buffer s)) \<and>
   (flushBuffer s env = (Some err, s1) \<longrightarrow> buffer s1 = buffer s) \<and>
   (int (length (buffer s)) + int (length logData) > BufferSize (config s) \<and> buffer s \<noteq> [] \<and>
    (writeErr env \<noteq> None \<or> flushErr env \<noteq> None) \<longrightarrow>
      (\<exists>s'. appendLogData s env logData = (Inl Internal, s') \<and> buffer s' = buffer s)) \<and>
   (SendSensorData s env = Some (r, s2) \<and> fileWriter s2 \<noteq> fileWriter s \<and>
    (writeErr env \<noteq> None \<or> flushErr env \<noteq> None) \<longrightarrow>
      r = Inl Internal \<and> buffer s2 = buffer s)"
proof -
  have 1: "\<exists>err s'. flushBuffer s env = (Some err, s') \<and> buffer s' = buffer s"
    if "buffer s \<noteq> []" "writeErr env \<noteq> None \<or> flushErr env \<noteq> None"
    using flushBuffer_failure [OF that] by blast
  have 2: "buffer s1 = buffer s" if "flushBuffer s env = (Some err, s1)"
    using flushBuffer_error [OF that] by blast
  have 3: "\<exists>s'. appendLogData s env logData = (Inl Internal, s') \<and> buffer s' = buffer s"
    if "int (length (buffer s)) + int (length logData) > BufferSize (config s)" "buffer s \<noteq> []"
      "writeErr env \<noteq> None \<or> flushErr env \<noteq> None"
    using appendLogData_flush_failure [OF that] .
  have 4: "r = Inl Internal \<and> buffer s2 = buffer s"
    if "SendSensorData s env = Some (r, s2)" "fileWriter s2 \<noteq> fileWriter s"
      "writeErr env \<noteq> None \<or> flushErr env \<noteq> None"
    using SendSensorData_io_failure [OF that] .
  show ?thesis using 1 2 3 4 by blast
qed

lemma Allow_example:
  "Allow (NewRateLimiter 100 0) 0 4 = Some (True, \<lparr>rate = 100, bucket = 96, lastUpdate = 0\<rparr>)"
  by code_simp

lemma SendSensorData_example_write_fails:
  "SendSensorData (example_server\<lparr>buffer := [1, 2, 3, 4, 5, 6]\<rparr>)
       (example_env\<lparr>writeErr := Some ''no space left on device''\<rparr>)
     = Some (Inl Internal,
             example_server\<lparr>buffer := [1, 2, 3, 4, 5, 6],
                            fileWriter := [FileWrite [1, 2, 3, 4, 5, 6]],
                            rateLimiter := \<lparr>rate = 100, bucket = 96, lastUpdate = 0\<rparr>\<rparr>)"
  by (simp add: SendSensorData_def validateClientCertificateIfMTLS_def example_server_def
      example_config_def example_env_def Allow_example appendLogData_def flushBuffer_def)

theorem flush_failure_keeps_buffer_witness:
  "(\<exists>err s'. flushBuffer (example_server\<lparr>buffer := [1, 2, 3, 4, 5, 6]\<rparr>)
                (example_env\<lparr>writeErr := Some ''no space left on device''\<rparr>) = (Some err, s') \<and>
              buffer s' = [1, 2, 3, 4, 5, 6]) \<and>
   (\<exists>s'. appendLogData (example_server\<lparr>buffer := [1, 2, 3, 4, 5, 6]\<rparr>)
            (example_env\<lparr>writeErr := Some ''no space left on device''\<rparr>) [7, 8, 9, 10, 11, 12]
            = (Inl Internal, s') \<and> buffer s' = [1, 2, 3, 4, 5, 6]) \<and>
   SendSensorData (example_server\<lparr>buffer := [1, 2, 3, 4, 5, 6]\<rparr>)
       (example_env\<lparr>writeErr := Some ''no space left on device''\<rparr>)
     = Some (Inl Internal,
             example_server\<lparr>buffer := [1, 2, 3, 4, 5, 6],
                            fileWriter := [FileWrite [1, 2, 3, 4, 5, 6]],
                            rateLimiter := \<lparr>rate = 100, bucket = 96, lastUpdate = 0\<rparr>\<rparr>)"
  using flush_failure_keeps_buffer
      [of "example_server\<lparr>buffer := [1, 2, 3, 4, 5, 6]\<rparr>"
          "example_env\<lparr>writeErr := Some ''no space left on device''\<rparr>"
          "''no space left on device''"
          "example_server\<lparr>buffer := [1, 2, 3, 4, 5, 6], fileWriter := [FileWrite [1, 2, 3, 4, 5, 6]]\<rparr>"
          "[7, 8, 9, 10, 11, 12]" "Inl Internal"
          "example_server\<lparr>buffer := [1, 2, 3, 4, 5, 6],
                            fileWriter := [FileWrite [1, 2, 3, 4, 5, 6]],
                            rateLimiter := \<lparr>rate = 100, bucket = 96, lastUpdate = 0\<rparr>\<rparr>"]
    SendSensorData_example_write_fails
  by (simp add: example_server_def example_config_def example_env_def)

text \<open>
  C9. A request fails the validation of the peer certificate exactly when mutual TLS is
  configured (\<open>UseTLS\<close> and a CA file) and the context has no peer, no TLS information or no
  verified peer certificate. \<open>SendSensorData\<close> then answers \<open>Unauthenticated\<close> and returns
  the server unchanged: limiter, buffer and file are as before, whatever the rest of the
  request is.
\<close>

theorem SendSensorData_unauthenticated_changes_nothing:
  "(validateClientCertificateIfMTLS s env \<noteq> None \<longleftrightarrow>
      UseTLS (config s) \<and> CAFile (config s) \<noteq> [] \<and>
      (peer env = None \<or> peer env = Some OtherAuthInfo \<or> peer env = Some (TLSInfo []))) \<and>
   (validateClientCertificateIfMTLS s env \<noteq> None \<longrightarrow>
      SendSensorData s env = Some (Inl Unauthenticated, s))"
  using validate_fails_iff [of s env] SendSensorData_unauthenticated [of s env] by blast

theorem SendSensorData_unauthenticated_changes_nothing_witness:
  "SendSensorData
     (example_server\<lparr>config := example_config\<lparr>UseTLS := True, CAFile := ''ca-cert.pem''\<rparr>\<rparr>)
     (example_env\<lparr>peer := Some (TLSInfo [])\<rparr>)
   = Some (Inl Unauthenticated,
           example_server\<lparr>config := example_config\<lparr>UseTLS := True, CAFile := ''ca-cert.pem''\<rparr>\<rparr>)"
  using SendSensorData_unauthenticated_changes_nothing
    [of "example_server\<lparr>config := example_config\<lparr>UseTLS := True, CAFile := ''ca-cert.pem''\<rparr>\<rparr>"
        "example_env\<lparr>peer := Some (TLSInfo [])\<rparr>"]
  by (simp add: example_server_def example_config_def example_env_def)

end
